theory Spec2Isabelle
  imports Main "HOL-Library.AList"
begin

section \<open>Python strings\<close>

text \<open>
  A Python \<open>str\<close> is a sequence of code points. The model keeps the code points
  U+0000 to U+00FF: a \<^typ>\<open>string\<close> is a list of \<^typ>\<open>char\<close>, and a \<^typ>\<open>char\<close>
  is read as the code point of its number (\<open>py_ord\<close>). The character classes below
  are those of CPython on that range: \<open>str.isspace\<close>, \<open>str.isdigit\<close> (which holds
  of the superscript digits U+00B2, U+00B3 and U+00B9 as well as of \<open>0\<close> to \<open>9\<close>),
  \<open>str.lower\<close>, and the word characters of the \<open>re\<close> module (\<open>\w\<close>: what
  \<open>str.isalnum\<close> accepts, and the underscore).
\<close>

definition py_ord :: "char \<Rightarrow> nat" where
  "py_ord c = of_char c"

definition py_isspace :: "char \<Rightarrow> bool" where
  "py_isspace c = (let n = py_ord c in
     (9 \<le> n \<and> n \<le> 13) \<or> (28 \<le> n \<and> n \<le> 32) \<or> n = 133 \<or> n = 160)"

definition ascii_digit :: "char \<Rightarrow> bool" where
  "ascii_digit c = (48 \<le> py_ord c \<and> py_ord c \<le> 57)"

definition superscript_digit :: "char \<Rightarrow> bool" where
  "superscript_digit c = (py_ord c = 178 \<or> py_ord c = 179 \<or> py_ord c = 185)"

definition isdigit_char :: "char \<Rightarrow> bool" where
  "isdigit_char c = (ascii_digit c \<or> superscript_digit c)"

text \<open>\<open>x.isdigit()\<close>: at least one character, and every character a digit.\<close>

definition py_isdigit :: "string \<Rightarrow> bool" where
  "py_isdigit x = (x \<noteq> [] \<and> list_all isdigit_char x)"

definition lower_char :: "char \<Rightarrow> char" where
  "lower_char c = (let n = py_ord c in
     if (65 \<le> n \<and> n \<le> 90) \<or> (192 \<le> n \<and> n \<le> 222 \<and> n \<noteq> 215)
     then char_of (n + 32) else c)"

definition py_lower :: "string \<Rightarrow> string" where
  "py_lower s = map lower_char s"

text \<open>
  \<open>s.split()\<close> with no argument: the maximal runs of characters that are not
  whitespace, in order; no empty word is produced. The first argument is the word read
  so far.
\<close>

fun split_words :: "string \<Rightarrow> string \<Rightarrow> string list" where
  "split_words w [] = (if w = [] then [] else [w])"
| "split_words w (c # cs) =
     (if py_isspace c then (if w = [] then split_words [] cs else w # split_words [] cs)
      else split_words (w @ [c]) cs)"

definition py_split :: "string \<Rightarrow> string list" where
  "py_split s = split_words [] s"

text \<open>
  \<open>re.split(r'[.-]', s)\<close>: the pieces between the dots and dashes, empty pieces
  included, so that a string without separator is returned as its only piece.
\<close>

fun re_split_acc :: "string \<Rightarrow> string \<Rightarrow> string list" where
  "re_split_acc w [] = [w]"
| "re_split_acc w (c # cs) =
     (if c = CHR ''.'' \<or> c = CHR ''-'' then w # re_split_acc [] cs
      else re_split_acc (w @ [c]) cs)"

definition re_split_dot_dash :: "string \<Rightarrow> string list" where
  "re_split_dot_dash s = re_split_acc [] s"

text \<open>
  Comparison of two strings and of two lists of integers with \<open>>\<close>: both are
  sequence comparisons, decided at the first position where the two differ, and by
  the lengths when one is a prefix of the other.
\<close>

fun py_str_gt :: "string \<Rightarrow> string \<Rightarrow> bool" where
  "py_str_gt [] ys = False"
| "py_str_gt (x # xs) [] = True"
| "py_str_gt (x # xs) (y # ys) = (if x = y then py_str_gt xs ys else py_ord y < py_ord x)"

fun py_list_gt :: "int list \<Rightarrow> int list \<Rightarrow> bool" where
  "py_list_gt [] ys = False"
| "py_list_gt (x # xs) [] = True"
| "py_list_gt (x # xs) (y # ys) = (if x = y then py_list_gt xs ys else y < x)"

section \<open>The version comparator (\<open>compare_versions\<close> of scraper.py)\<close>

datatype exn = IndexError | ValueError | KeyError | RuntimeError

text \<open>
  \<open>int(x)\<close> on a token that passed \<open>x.isdigit()\<close>: the decimal value when every
  character is one of \<open>0\<close> to \<open>9\<close>. A superscript digit raises \<open>ValueError\<close>, and
  so does a token with more digits than the limit on the conversion of a decimal string,
  which is 4300 unless the interpreter is configured otherwise (CPython from 3.11 on).
\<close>

definition int_max_str_digits :: nat where
  "int_max_str_digits = 4300"

definition int_accepts :: "string \<Rightarrow> bool" where
  "int_accepts x = (list_all ascii_digit x \<and> length x \<le> int_max_str_digits)"

definition digit_value :: "char \<Rightarrow> int" where
  "digit_value c = int (py_ord c - 48)"

definition py_int :: "string \<Rightarrow> exn + int" where
  "py_int x = (if int_accepts x
     then Inr (foldl (\<lambda>acc c. 10 * acc + digit_value c) 0 x)
     else Inl ValueError)"

text \<open>
  The list comprehension \<open>[int(x) for x in tokens if x.isdigit()]\<close>: the first
  \<open>int\<close> that raises ends it.
\<close>

fun int_tokens :: "string list \<Rightarrow> exn + int list" where
  "int_tokens [] = Inr []"
| "int_tokens (x # xs) =
     (if py_isdigit x then
        (case py_int x of
           Inl e \<Rightarrow> Inl e
         | Inr n \<Rightarrow> (case int_tokens xs of Inl e \<Rightarrow> Inl e | Inr ns \<Rightarrow> Inr (n # ns)))
      else int_tokens xs)"

text \<open>
  \<open>[int(x) for x in re.split(r'[.-]', v.split()[0]) if x.isdigit()]\<close>: \<open>v.split()[0]\<close>
  raises \<open>IndexError\<close> when \<open>v\<close> has no word.
\<close>

definition version_parts :: "string \<Rightarrow> exn + int list" where
  "version_parts v =
     (case py_split v of
        [] \<Rightarrow> Inl IndexError
      | w # _ \<Rightarrow> int_tokens (re_split_dot_dash w))"

text \<open>The tie-break on the two optional timestamps, used by both branches.\<close>

definition timestamp_newer :: "int option \<Rightarrow> int option \<Rightarrow> bool" where
  "timestamp_newer timestamp1 timestamp2 =
     (case timestamp1 of
        None \<Rightarrow> False
      | Some t1 \<Rightarrow> (case timestamp2 of None \<Rightarrow> False | Some t2 \<Rightarrow> t2 < t1))"

text \<open>The body of the \<open>try\<close>.\<close>

definition compare_versions_try ::
  "string \<Rightarrow> string \<Rightarrow> int option \<Rightarrow> int option \<Rightarrow> exn + bool" where
  "compare_versions_try v1 v2 timestamp1 timestamp2 =
     (case version_parts v1 of
        Inl e \<Rightarrow> Inl e
      | Inr v1_parts \<Rightarrow>
        (case version_parts v2 of
           Inl e \<Rightarrow> Inl e
         | Inr v2_parts \<Rightarrow>
           (let max_len = max (length v1_parts) (length v2_parts);
                v1_ext = v1_parts @ replicate (max_len - length v1_parts) 0;
                v2_ext = v2_parts @ replicate (max_len - length v2_parts) 0
            in if v1_ext = v2_ext then Inr (timestamp_newer timestamp1 timestamp2)
               else Inr (py_list_gt v1_ext v2_ext))))"

text \<open>The handler of the bare \<open>except\<close>: comparison of the two strings.\<close>

definition compare_versions_except ::
  "string \<Rightarrow> string \<Rightarrow> int option \<Rightarrow> int option \<Rightarrow> bool" where
  "compare_versions_except v1 v2 timestamp1 timestamp2 =
     (if v1 = v2 then timestamp_newer timestamp1 timestamp2 else py_str_gt v1 v2)"

text \<open>
  The handler catches every exception of the body and raises none itself, so the
  function returns a truth value on every input.
\<close>

definition compare_versions ::
  "string \<Rightarrow> string \<Rightarrow> int option \<Rightarrow> int option \<Rightarrow> bool" where
  "compare_versions v1 v2 timestamp1 timestamp2 =
     (case compare_versions_try v1 v2 timestamp1 timestamp2 of
        Inr r \<Rightarrow> r
      | Inl e \<Rightarrow> compare_versions_except v1 v2 timestamp1 timestamp2)"

subsection \<open>The numeric reference definition of the specification\<close>

text \<open>
  The specification's algorithm, written from its words and not from the code: split
  the version on \<open>.\<close> and \<open>-\<close>; keep only the numeric tokens, in order, as integers;
  right-pad the shorter tuple with zeros; compare the tuples lexicographically; on equal
  tuples the strictly greater timestamp wins when both timestamps are given, and
  neither version is newer otherwise.
\<close>

definition spec_tokens :: "string \<Rightarrow> string list" where
  "spec_tokens s =
     foldr (\<lambda>c ts. if c \<in> {CHR ''.'', CHR ''-''} then [] # ts else (c # hd ts) # tl ts) s [[]]"

definition spec_numeric :: "string \<Rightarrow> bool" where
  "spec_numeric t = (t \<noteq> [] \<and> set t \<subseteq> set ''0123456789'')"

definition spec_digit :: "char \<Rightarrow> int" where
  "spec_digit c = int (length (takeWhile (\<lambda>d. d \<noteq> c) ''0123456789''))"

fun spec_decimal :: "string \<Rightarrow> int" where
  "spec_decimal [] = 0"
| "spec_decimal (c # cs) = spec_digit c * 10 ^ length cs + spec_decimal cs"

definition spec_tuple :: "string \<Rightarrow> int list" where
  "spec_tuple v = map spec_decimal (filter spec_numeric (spec_tokens v))"

definition spec_pad :: "nat \<Rightarrow> int list \<Rightarrow> int list" where
  "spec_pad n xs = xs @ replicate (n - length xs) 0"

definition spec_is_newer :: "string \<Rightarrow> string \<Rightarrow> int option \<Rightarrow> int option \<Rightarrow> bool" where
  "spec_is_newer a b tA tB =
     (let n = max (length (spec_tuple a)) (length (spec_tuple b));
          pa = spec_pad n (spec_tuple a);
          pb = spec_pad n (spec_tuple b)
      in if pa = pb then (case (tA, tB) of (Some x, Some y) \<Rightarrow> y < x | _ \<Rightarrow> False)
         else ord_class.lexordp pb pa)"

definition spec_has_numeric_token :: "string \<Rightarrow> bool" where
  "spec_has_numeric_token v = (spec_tuple v \<noteq> [])"

text \<open>
  What \<open>compare_versions\<close> parses is the first word of the version string. A string
  has one when some character of it is not whitespace.
\<close>

definition has_word :: "string \<Rightarrow> bool" where
  "has_word v = (\<exists>c \<in> set v. \<not> py_isspace c)"

definition first_word :: "string \<Rightarrow> string" where
  "first_word v = takeWhile (\<lambda>c. \<not> py_isspace c) (dropWhile py_isspace v)"

text \<open>
  Parsing raises in two cases: the string has no word, or a token of its first word
  passes \<open>isdigit\<close> and is refused by \<open>int\<close>.
\<close>

definition parse_raises :: "string \<Rightarrow> bool" where
  "parse_raises v =
     (\<not> has_word v \<or>
      (\<exists>t \<in> set (re_split_dot_dash (first_word v)). py_isdigit t \<and> \<not> int_accepts t))"

text \<open>
  \<open>v.isascii()\<close>: every character is below U+0080. On such a string the digits of
  \<open>str.isdigit\<close> are \<open>0\<close> to \<open>9\<close> and nothing else, in the model as in Python at
  large, where further characters beyond U+00FF (superscripts, subscripts, circled
  digits, the decimal digits of other scripts) pass \<open>isdigit\<close> as well.
\<close>

definition py_isascii :: "string \<Rightarrow> bool" where
  "py_isascii v = list_all (\<lambda>c. py_ord c < 128) v"

section \<open>The known-tweak registry\<close>

text \<open>
  The registry is the list of names loaded from \<open>tweaks_list.json\<close>. A name is in
  the registry when it equals one of its entries up to case, as \<open>is_tweak_in_list\<close>
  of clean_duplicates.py decides it.
\<close>

definition is_tweak_in_list :: "string option \<Rightarrow> string list \<Rightarrow> bool" where
  "is_tweak_in_list tweak_name known_tweaks =
     (case tweak_name of
        None \<Rightarrow> False
      | Some t \<Rightarrow>
          if t = [] \<or> known_tweaks = [] then False
          else list_ex (\<lambda>known. py_lower known = py_lower t) known_tweaks)"

section \<open>Metadata extraction and the reconciled tweak (scraper.py)\<close>

text \<open>
  The dictionary that \<open>_extract_with_model\<close> returns. The inference service is a
  collaborator: its answer for the message and filename at hand is a parameter of the
  model, \<open>None\<close> when the call fails or the answer lacks a required field.
\<close>

record ai_metadata =
  ai_app_name :: "string option"
  ai_version :: "string option"
  ai_tweak_name :: "string option"
  ai_bundle_id :: "string option"
  ai_description :: "string option"

text \<open>
  \<open>extract_metadata_with_ai\<close>: without API key it raises; a cached answer is returned as
  it is; otherwise the primary model is asked, and the fallback model when the primary
  one failed or found neither name nor bundle identifier. An answer is cached when there
  is one. The result is the answer together with the cache.
\<close>

definition extract_metadata_with_ai ::
  "string \<Rightarrow> (string \<rightharpoonup> ai_metadata) \<Rightarrow> string \<Rightarrow> string \<Rightarrow> string \<Rightarrow>
   (string \<Rightarrow> ai_metadata option) \<Rightarrow> exn + (ai_metadata option \<times> (string \<rightharpoonup> ai_metadata))" where
  "extract_metadata_with_ai api_key ai_bundle_cache cache_key model fallback_model extract_with_model =
     (if api_key = [] then Inl RuntimeError
      else case ai_bundle_cache cache_key of
        Some cached_result \<Rightarrow> Inr (Some cached_result, ai_bundle_cache)
      | None \<Rightarrow>
          (let metadata = extract_with_model model;
               needs_fallback =
                 (case metadata of
                    None \<Rightarrow> True
                  | Some m \<Rightarrow> ai_app_name m = None \<and> ai_bundle_id m = None);
               metadata' =
                 (if needs_fallback \<and> fallback_model \<noteq> [] \<and> fallback_model \<noteq> model then
                    (case extract_with_model fallback_model of
                       Some fallback_metadata \<Rightarrow> Some fallback_metadata
                     | None \<Rightarrow> metadata)
                  else metadata)
           in Inr (metadata',
                   case metadata' of
                     Some m \<Rightarrow> ai_bundle_cache(cache_key \<mapsto> m)
                   | None \<Rightarrow> ai_bundle_cache)))"

text \<open>
  In \<open>update_repo_json\<close> the tweak of the message is the \<open>tweak_name\<close> of the answer,
  and nothing when there is no message text or no answer. The tweak of the filename is
  the constant \<open>None\<close>. \<open>a or b\<close> is \<open>a\<close> when \<open>a\<close> is a non-empty string and \<open>b\<close>
  otherwise.
\<close>

definition tweak_from_message :: "string \<Rightarrow> ai_metadata option \<Rightarrow> string option" where
  "tweak_from_message message_text ai_result =
     (if message_text = [] then None
      else case ai_result of None \<Rightarrow> None | Some m \<Rightarrow> ai_tweak_name m)"

definition tweak_from_filename :: "string \<Rightarrow> string option" where
  "tweak_from_filename filename = None"

definition py_or :: "string option \<Rightarrow> string option \<Rightarrow> string option" where
  "py_or a b = (case a of None \<Rightarrow> b | Some s \<Rightarrow> if s = [] then b else Some s)"

definition best_tweak :: "string \<Rightarrow> ai_metadata option \<Rightarrow> string \<Rightarrow> string option" where
  "best_tweak message_text ai_result filename =
     py_or (tweak_from_message message_text ai_result) (tweak_from_filename filename)"

section \<open>The catalog deduplication engine (\<open>update_repo_json\<close> of scraper.py)\<close>

subsection \<open>Pass 1: the incoming observations\<close>

text \<open>
  The \<open>info\<close> dictionary of a package, with the keys the engine reads. An observation
  is what one iteration of the loop over the downloaded files holds once the metadata are
  reconciled: the filename, \<open>info\<close>, the reconciled tweak, the timestamp of the message,
  and the source fields that are copied into the entry.
\<close>

record info =
  info_bundleIdentifier :: string
  info_name :: string
  info_version :: string

record observation =
  ob_filename :: string
  ob_info :: info
  ob_best_tweak :: "string option"
  ob_message_timestamp :: int
  ob_source :: string
  ob_message :: string
  ob_ai_description :: "string option"

text \<open>
  The entry that Pass 1 stores in \<open>apps_by_bundle\<close>; \<open>old_filename\<close> is present only in
  an entry that replaced another one.
\<close>

record new_entry =
  e_info :: info
  e_filename :: string
  e_version :: string
  e_source :: string
  e_message :: string
  e_tweak :: "string option"
  e_timestamp :: int
  e_ai_description :: "string option"
  e_old_filename :: "string option"

definition make_entry :: "observation \<Rightarrow> string option \<Rightarrow> new_entry" where
  "make_entry ob old_filename =
     \<lparr>e_info = ob_info ob, e_filename = ob_filename ob, e_version = info_version (ob_info ob),
      e_source = ob_source ob, e_message = ob_message ob, e_tweak = ob_best_tweak ob,
      e_timestamp = ob_message_timestamp ob, e_ai_description = ob_ai_description ob,
      e_old_filename = old_filename\<rparr>"

text \<open>
  The key: the bundle identifier, followed by a colon and the tweak when the tweak is a
  non-empty string.
\<close>

definition unique_app_key :: "string \<Rightarrow> string option \<Rightarrow> string" where
  "unique_app_key bundle_id tweak =
     (case tweak of
        None \<Rightarrow> bundle_id
      | Some t \<Rightarrow> if t = [] then bundle_id else bundle_id @ '':'' @ t)"

text \<open>
  The state of Pass 1: the dictionary \<open>apps_by_bundle\<close>, an association list in
  insertion order (\<^const>\<open>AList.update\<close> overwrites the value of a key in place and
  appends a new key, as a Python \<open>dict\<close> does), and the files of the download directory.
\<close>

record pass1_state =
  apps_by_bundle :: "(string \<times> new_entry) list"
  download_dir :: "string set"

definition pass1_step :: "observation \<Rightarrow> pass1_state \<Rightarrow> pass1_state" where
  "pass1_step ob st =
     (let bundle_id = info_bundleIdentifier (ob_info ob);
          app_version = info_version (ob_info ob);
          key = unique_app_key bundle_id (ob_best_tweak ob)
      in case map_of (apps_by_bundle st) key of
           Some resident \<Rightarrow>
             if compare_versions app_version (e_version resident)
                  (Some (ob_message_timestamp ob)) (Some (e_timestamp resident))
             then
               (let old_filename = e_filename resident
                in \<lparr>apps_by_bundle =
                      AList.update key (make_entry ob (Some old_filename)) (apps_by_bundle st),
                    download_dir = download_dir st - {old_filename}\<rparr>)
             else st
         | None \<Rightarrow>
             st\<lparr>apps_by_bundle := AList.update key (make_entry ob None) (apps_by_bundle st)\<rparr>)"

definition pass1 :: "observation list \<Rightarrow> string set \<Rightarrow> pass1_state" where
  "pass1 obs files = fold pass1_step obs \<lparr>apps_by_bundle = [], download_dir = files\<rparr>"

subsection \<open>Pass 2: the merge with the published catalog\<close>

text \<open>
  An entry of the published catalog with the keys the engine reads; \<open>None\<close> is a
  missing key. \<open>app['bundleIdentifier']\<close> and \<open>app['version']\<close> raise \<open>KeyError\<close> on a
  missing key; \<open>app.get('name', '')\<close>, \<open>app.get('bundleIdentifier', '')\<close> and
  \<open>existing_app.get('downloadURL', '')\<close> return the empty string instead. The remaining
  keys of an entry are carried along and never read.
\<close>

record app =
  a_name :: "string option"
  a_bundleIdentifier :: "string option"
  a_version :: "string option"
  a_downloadURL :: "string option"

definition get_name :: "app \<Rightarrow> string" where
  "get_name a = (case a_name a of None \<Rightarrow> [] | Some n \<Rightarrow> n)"

definition get_bundleIdentifier :: "app \<Rightarrow> string" where
  "get_bundleIdentifier a = (case a_bundleIdentifier a of None \<Rightarrow> [] | Some b \<Rightarrow> b)"

definition get_downloadURL :: "app \<Rightarrow> string" where
  "get_downloadURL a = (case a_downloadURL a of None \<Rightarrow> [] | Some u \<Rightarrow> u)"

text \<open>
  After Pass 2 a value of \<open>apps_by_bundle\<close> is an entry of Pass 1 or a carried-forward
  catalog entry, the dictionary with the key \<open>existing\<close>.
\<close>

datatype entry = New new_entry | Existing app string "string option"

fun entry_version :: "entry \<Rightarrow> string" where
  "entry_version (New e) = e_version e"
| "entry_version (Existing a v t) = v"

text \<open>
  \<open>re.search(r'\(([^)]+)\)$', app_name)\<close>, group 1: the leftmost opening parenthesis
  that is followed by at least one character other than a closing parenthesis and then
  by a closing parenthesis at the end of the name (\<open>$\<close> also matches before a final
  newline).
\<close>

fun tweak_in_name :: "string \<Rightarrow> string option" where
  "tweak_in_name [] = None"
| "tweak_in_name (c # cs) =
     (if c = CHR ''('' then
        (let content = takeWhile (\<lambda>x. x \<noteq> CHR '')'') cs;
             after = dropWhile (\<lambda>x. x \<noteq> CHR '')'') cs
         in if content \<noteq> [] \<and> (after = [CHR '')''] \<or> after = [CHR '')'', CHR 0x0A])
            then Some content else tweak_in_name cs)
      else tweak_in_name cs)"

definition pass2_step :: "app \<Rightarrow> (string \<times> entry) list \<Rightarrow> exn + (string \<times> entry) list" where
  "pass2_step a m =
     (case a_bundleIdentifier a of
        None \<Rightarrow> Inl KeyError
      | Some bundle_id \<Rightarrow>
        (case a_version a of
           None \<Rightarrow> Inl KeyError
         | Some app_version \<Rightarrow>
           (let app_name = get_name a;
                existing_tweak = tweak_in_name app_name;
                key = unique_app_key bundle_id existing_tweak
            in case map_of m key of
                 Some resident \<Rightarrow>
                   if compare_versions app_version (entry_version resident) None None
                   then Inr (AList.update key (Existing a app_version existing_tweak) m)
                   else Inr m
               | None \<Rightarrow> Inr (AList.update key (Existing a app_version existing_tweak) m))))"

fun pass2 :: "app list \<Rightarrow> (string \<times> entry) list \<Rightarrow> exn + (string \<times> entry) list" where
  "pass2 [] m = Inr m"
| "pass2 (a # existing_apps) m =
     (case pass2_step a m of Inl e \<Rightarrow> Inl e | Inr m' \<Rightarrow> pass2 existing_apps m')"

subsection \<open>Republish: the final list of apps\<close>

text \<open>\<open>download_url.split('/')[-1]\<close>: what follows the last slash.\<close>

definition last_segment :: "string \<Rightarrow> string" where
  "last_segment url = rev (takeWhile (\<lambda>c. c \<noteq> CHR ''/'') (rev url))"

text \<open>
  One value of \<open>apps_by_bundle\<close> contributes at most one app. \<open>urllib.parse.unquote\<close>
  is a parameter, as is the publication of a new entry (upload, lookups and the
  construction of the catalog entry), which yields no app when the upload fails.
\<close>

definition republish_entry ::
  "(string \<Rightarrow> string) \<Rightarrow> string set \<Rightarrow> (new_entry \<Rightarrow> app option) \<Rightarrow> entry \<Rightarrow> app list" where
  "republish_entry unquote current_release_assets publish_new data =
     (case data of
        Existing existing_app v t \<Rightarrow>
          (let download_url = get_downloadURL existing_app
           in if download_url = [] then []
              else if unquote (last_segment download_url) \<in> current_release_assets
              then [existing_app] else [])
      | New e \<Rightarrow> (case publish_new e of Some app_entry \<Rightarrow> [app_entry] | None \<Rightarrow> []))"

definition final_apps ::
  "(string \<Rightarrow> string) \<Rightarrow> string set \<Rightarrow> (new_entry \<Rightarrow> app option) \<Rightarrow>
   (string \<times> entry) list \<Rightarrow> app list" where
  "final_apps unquote current_release_assets publish_new m =
     concat (map (\<lambda>(key, data). republish_entry unquote current_release_assets publish_new data) m)"

section \<open>The batch duplicate detector (clean_duplicates.py)\<close>

subsection \<open>\<open>extract_tweak_from_filename\<close>\<close>

text \<open>
  The word characters of \<open>re\<close> on the code points below 256: the digits, the letters
  and the underscore of ASCII, and the characters beyond ASCII that \<open>str.isalnum\<close>
  accepts. \<open>\b\<close> matches at a position when exactly one of the characters before and
  after it is a word character, the outside of the string counting as none.
\<close>

definition word_char :: "char \<Rightarrow> bool" where
  "word_char c = (let n = py_ord c in
     (48 \<le> n \<and> n \<le> 57) \<or> (65 \<le> n \<and> n \<le> 90) \<or> n = 95 \<or> (97 \<le> n \<and> n \<le> 122) \<or>
     n = 170 \<or> n = 178 \<or> n = 179 \<or> n = 181 \<or> n = 185 \<or> n = 186 \<or>
     (188 \<le> n \<and> n \<le> 190) \<or> (192 \<le> n \<and> n \<le> 214) \<or> (216 \<le> n \<and> n \<le> 246) \<or>
     (248 \<le> n \<and> n \<le> 255))"

definition word_boundary :: "string \<Rightarrow> nat \<Rightarrow> bool" where
  "word_boundary s i =
     ((0 < i \<and> i \<le> length s \<and> word_char (s ! (i - 1))) \<noteq> (i < length s \<and> word_char (s ! i)))"

text \<open>
  \<open>re.search(r'\b' + re.escape(tweak) + r'\b', filename, re.IGNORECASE)\<close> finds a
  match when, at some position, the characters of the tweak follow up to case, with a
  word boundary before and after them.
\<close>

definition tweak_at :: "string \<Rightarrow> string \<Rightarrow> nat \<Rightarrow> bool" where
  "tweak_at tweak filename i =
     (i + length tweak \<le> length filename \<and>
      word_boundary filename i \<and>
      py_lower (take (length tweak) (drop i filename)) = py_lower tweak \<and>
      word_boundary filename (i + length tweak))"

definition tweak_search :: "string \<Rightarrow> string \<Rightarrow> bool" where
  "tweak_search tweak filename = list_ex (tweak_at tweak filename) [0..<Suc (length filename)]"

fun extract_tweak_from_filename :: "string \<Rightarrow> string list \<Rightarrow> string option" where
  "extract_tweak_from_filename filename [] = None"
| "extract_tweak_from_filename filename (tweak # known_tweaks) =
     (if tweak_search tweak filename then Some tweak
      else extract_tweak_from_filename filename known_tweaks)"

subsection \<open>The validation of the proposed groups\<close>

text \<open>
  A group proposed by the inference service: the file to keep, the files to delete, and
  the fields that are only reported.
\<close>

record dup_group =
  g_keep :: string
  g_delete :: "string list"
  g_tweak_name :: "string option"
  g_reason :: string

text \<open>\<open>x.lower() if x else None\<close>.\<close>

definition tweak_normalized :: "string option \<Rightarrow> string option" where
  "tweak_normalized x =
     (case x of None \<Rightarrow> None | Some t \<Rightarrow> if t = [] then None else Some (py_lower t))"

text \<open>
  The loop over the files to delete, which stops at the first file whose tweak is not
  that of the file to keep.
\<close>

fun all_tweaks_match :: "string option \<Rightarrow> string list \<Rightarrow> string list \<Rightarrow> bool" where
  "all_tweaks_match keep_tweak known_tweaks [] = True"
| "all_tweaks_match keep_tweak known_tweaks (delete_file # delete_files) =
     (let delete_tweak = extract_tweak_from_filename delete_file known_tweaks
      in if tweak_normalized keep_tweak \<noteq> tweak_normalized delete_tweak then False
         else all_tweaks_match keep_tweak known_tweaks delete_files)"

definition group_passes :: "string list \<Rightarrow> dup_group \<Rightarrow> bool" where
  "group_passes known_tweaks g =
     all_tweaks_match (extract_tweak_from_filename (g_keep g) known_tweaks) known_tweaks (g_delete g)"

definition validate_groups :: "string list \<Rightarrow> dup_group list \<Rightarrow> dup_group list" where
  "validate_groups known_tweaks duplicate_groups =
     (if known_tweaks \<noteq> [] \<and> duplicate_groups \<noteq> []
      then filter (group_passes known_tweaks) duplicate_groups
      else duplicate_groups)"

subsection \<open>\<open>check_all_release_assets_with_ai\<close>\<close>

text \<open>
  The request for one batch of at most \<open>CHUNK_SIZE\<close> filenames. The answer of the
  inference service, parsed, is the parameter \<open>ai\<close>; it is \<open>None\<close> when the request or
  the parsing fails, and the function then returns no group. The cache maps the key of
  a batch to the groups returned for it. The result is the groups and the cache.
\<close>

type_synonym 'k batch_cache = "'k \<rightharpoonup> dup_group list"

definition check_batch ::
  "string \<Rightarrow> (string list \<Rightarrow> 'k) \<Rightarrow> (string list \<Rightarrow> dup_group list option) \<Rightarrow>
   string list \<Rightarrow> string list \<Rightarrow> 'k batch_cache \<Rightarrow> dup_group list \<times> 'k batch_cache" where
  "check_batch api_key cache_key ai known_tweaks filenames cache =
     (if api_key = [] then ([], cache)
      else if length filenames < 2 then ([], cache)
      else case cache (cache_key filenames) of
        Some cached \<Rightarrow> (cached, cache)
      | None \<Rightarrow>
          (case ai filenames of
             None \<Rightarrow> ([], cache)
           | Some duplicate_groups \<Rightarrow>
               (let validated = validate_groups known_tweaks duplicate_groups
                in (validated, cache(cache_key filenames \<mapsto> validated)))))"

text \<open>\<open>filenames[i:i + CHUNK_SIZE]\<close> for \<open>i\<close> in \<open>range(0, len(filenames), CHUNK_SIZE)\<close>.\<close>

function chunks :: "nat \<Rightarrow> 'a list \<Rightarrow> 'a list list" where
  "chunks n xs = (if n = 0 \<or> xs = [] then [] else take n xs # chunks n (drop n xs))"
  by pat_completeness auto
termination
  by (relation "measure (\<lambda>(n, xs). length xs)") auto

definition CHUNK_SIZE :: nat where
  "CHUNK_SIZE = 50"

text \<open>The loop over the chunks, which threads the cache and appends the groups.\<close>

fun check_chunks ::
  "string \<Rightarrow> (string list \<Rightarrow> 'k) \<Rightarrow> (string list \<Rightarrow> dup_group list option) \<Rightarrow>
   string list \<Rightarrow> string list list \<Rightarrow> 'k batch_cache \<Rightarrow> dup_group list \<times> 'k batch_cache" where
  "check_chunks api_key cache_key ai known_tweaks [] cache = ([], cache)"
| "check_chunks api_key cache_key ai known_tweaks (chunk # rest) cache =
     (let (chunk_groups, cache') = check_batch api_key cache_key ai known_tweaks chunk cache;
          (rest_groups, cache'') = check_chunks api_key cache_key ai known_tweaks rest cache'
      in (chunk_groups @ rest_groups, cache''))"

text \<open>
  The function itself: more than \<open>CHUNK_SIZE\<close> filenames are processed chunk by chunk,
  each chunk by a call of the function on at most \<open>CHUNK_SIZE\<close> filenames.
\<close>

definition check_all_release_assets_with_ai ::
  "string \<Rightarrow> (string list \<Rightarrow> 'k) \<Rightarrow> (string list \<Rightarrow> dup_group list option) \<Rightarrow>
   string list \<Rightarrow> string list \<Rightarrow> 'k batch_cache \<Rightarrow> dup_group list \<times> 'k batch_cache" where
  "check_all_release_assets_with_ai api_key cache_key ai known_tweaks filenames cache =
     (if api_key = [] then ([], cache)
      else if length filenames < 2 then ([], cache)
      else if CHUNK_SIZE < length filenames
      then check_chunks api_key cache_key ai known_tweaks (chunks CHUNK_SIZE filenames) cache
      else check_batch api_key cache_key ai known_tweaks filenames cache)"

text \<open>
  In \<open>clean_duplicates\<close> the files to delete from the release are the files to delete of
  the returned groups that are assets of the release, in order.
\<close>

definition files_to_delete :: "string list \<Rightarrow> dup_group list \<Rightarrow> string list" where
  "files_to_delete ipa_assets duplicate_groups =
     concat (map (\<lambda>g. filter (\<lambda>old_file. old_file \<in> set ipa_assets) (g_delete g)) duplicate_groups)"

section \<open>The AltStore conversion (convert_to_altstore.py)\<close>

text \<open>\<open>s.strip()\<close>.\<close>

definition py_strip :: "string \<Rightarrow> string" where
  "py_strip s = rev (dropWhile py_isspace (rev (dropWhile py_isspace s)))"

text \<open>
  \<open>re.match(r'^(.+?)\s*\(([^)]+)\)\s*$', app_name)\<close>. \<open>paren_tail\<close> is the part of the
  pattern from the opening parenthesis on: the parenthesis, at least one character other
  than a closing parenthesis, the closing parenthesis, and whitespace up to the end.
  Group 1 is lazy: \<open>name_match\<close> tries it with one more character at a time, a newline
  excluded, and after it the longest run of whitespace (a shorter run leaves a
  whitespace character where the parenthesis must stand). The result is the pair of
  group 1 and group 2.
\<close>

definition paren_tail :: "string \<Rightarrow> string option" where
  "paren_tail s =
     (case s of
        [] \<Rightarrow> None
      | c # rest \<Rightarrow>
          if c = CHR ''('' then
            (let content = takeWhile (\<lambda>x. x \<noteq> CHR '')'') rest;
                 after = dropWhile (\<lambda>x. x \<noteq> CHR '')'') rest
             in if content \<noteq> [] \<and> after \<noteq> [] \<and> list_all py_isspace (tl after)
                then Some content else None)
          else None)"

fun name_match :: "string \<Rightarrow> string \<Rightarrow> (string \<times> string) option" where
  "name_match g1 [] = None"
| "name_match g1 (c # cs) =
     (case paren_tail (dropWhile py_isspace (c # cs)) of
        Some content \<Rightarrow> Some (g1, content)
      | None \<Rightarrow> if c = CHR 0x0A then None else name_match (g1 @ [c]) cs)"

definition re_match_name :: "string \<Rightarrow> (string \<times> string) option" where
  "re_match_name app_name =
     (case app_name of
        [] \<Rightarrow> None
      | c # cs \<Rightarrow> if c = CHR 0x0A then None else name_match [c] cs)"

text \<open>The loop over the registry: the first entry that equals the candidate up to case.\<close>

fun first_known :: "string \<Rightarrow> string list \<Rightarrow> string option" where
  "first_known potential_tweak [] = None"
| "first_known potential_tweak (tweak # known_tweaks) =
     (if py_lower tweak = py_lower potential_tweak then Some tweak
      else first_known potential_tweak known_tweaks)"

definition extract_tweak_from_name :: "string \<Rightarrow> string list \<Rightarrow> string \<times> string option" where
  "extract_tweak_from_name app_name known_tweaks =
     (case re_match_name app_name of
        None \<Rightarrow> (app_name, None)
      | Some (g1, g2) \<Rightarrow>
          (case first_known (py_strip g2) known_tweaks of
             Some tweak \<Rightarrow> (py_strip g1, Some tweak)
           | None \<Rightarrow> (app_name, None)))"

definition create_unique_bundle_id :: "string \<Rightarrow> string option \<Rightarrow> string" where
  "create_unique_bundle_id original_bundle_id tweak_name =
     (case tweak_name of
        None \<Rightarrow> original_bundle_id
      | Some t \<Rightarrow> if t = [] then original_bundle_id else original_bundle_id @ ''.'' @ py_lower t)"

text \<open>
  The converted app, with the two fields that depend on the name and the registry; the
  other fields are copies of those of the input.
\<close>

record altstore_app =
  alt_name :: string
  alt_bundleIdentifier :: string

definition convert_app_to_altstore_format :: "app \<Rightarrow> string list \<Rightarrow> altstore_app" where
  "convert_app_to_altstore_format a known_tweaks =
     (let app_name = get_name a;
          (base_name, tweak_name) = extract_tweak_from_name app_name known_tweaks;
          original_bundle_id = get_bundleIdentifier a;
          bundle_id = create_unique_bundle_id original_bundle_id tweak_name
      in \<lparr>alt_name = app_name, alt_bundleIdentifier = bundle_id\<rparr>)"

section \<open>Notions and scenarios used in the properties of the engine\<close>

subsection \<open>Storage and keys of catalog entries\<close>

text \<open>
  The binary of a catalog entry is in storage when the entry has a non-empty download
  URL whose last segment, decoded, is the name of an asset of the release.
\<close>

definition binary_in_storage :: "(string \<Rightarrow> string) \<Rightarrow> string set \<Rightarrow> app \<Rightarrow> bool" where
  "binary_in_storage unquote assets a =
     (get_downloadURL a \<noteq> [] \<and> unquote (last_segment (get_downloadURL a)) \<in> assets)"

text \<open>The key under which Pass 2 files a catalog entry that has a bundle identifier.\<close>

definition catalog_key :: "app \<Rightarrow> string option" where
  "catalog_key a =
     (case a_bundleIdentifier a of
        None \<Rightarrow> None
      | Some bundle_id \<Rightarrow>
          Some (unique_app_key bundle_id
                  (tweak_in_name (get_name a))))"

text \<open>
  The pair that Pass 2 stores for a catalog entry it carries forward; the last case
  stands for the entries without bundle identifier or version, which Pass 2 refuses.
\<close>

definition carried :: "app \<Rightarrow> string \<times> entry" where
  "carried a =
     (case (catalog_key a, a_version a) of
        (Some key, Some v) \<Rightarrow>
          (key, Existing a v (tweak_in_name (get_name a)))
      | _ \<Rightarrow> ([], Existing a [] None))"

subsection \<open>The scenarios of the specification\<close>

text \<open>
  Two observations of \<open>com.x.app\<close> without tweak, at versions 404.0.0 and 405.1.0, and
  two observations of the same bundle identifier and version with the tweaks BHInsta
  and Theta.
\<close>

definition obs_404 :: observation where
  "obs_404 =
     \<lparr>ob_filename = ''App_v404.0.0.ipa'',
      ob_info = \<lparr>info_bundleIdentifier = ''com.x.app'', info_name = ''App'',
                 info_version = ''404.0.0''\<rparr>,
      ob_best_tweak = None, ob_message_timestamp = 100, ob_source = ''channel'',
      ob_message = ''App 404.0.0'', ob_ai_description = None\<rparr>"

definition obs_405 :: observation where
  "obs_405 =
     \<lparr>ob_filename = ''App_v405.1.0.ipa'',
      ob_info = \<lparr>info_bundleIdentifier = ''com.x.app'', info_name = ''App'',
                 info_version = ''405.1.0''\<rparr>,
      ob_best_tweak = None, ob_message_timestamp = 200, ob_source = ''channel'',
      ob_message = ''App 405.1.0'', ob_ai_description = None\<rparr>"

definition obs_bhinsta :: observation where
  "obs_bhinsta =
     \<lparr>ob_filename = ''App_v1.2_BHInsta.ipa'',
      ob_info = \<lparr>info_bundleIdentifier = ''com.x.app'', info_name = ''App'',
                 info_version = ''1.2''\<rparr>,
      ob_best_tweak = Some ''BHInsta'', ob_message_timestamp = 100, ob_source = ''channel'',
      ob_message = ''App 1.2 BHInsta'', ob_ai_description = None\<rparr>"

definition obs_theta :: observation where
  "obs_theta =
     \<lparr>ob_filename = ''App_v1.2_Theta.ipa'',
      ob_info = \<lparr>info_bundleIdentifier = ''com.x.app'', info_name = ''App'',
                 info_version = ''1.2''\<rparr>,
      ob_best_tweak = Some ''Theta'', ob_message_timestamp = 100, ob_source = ''channel'',
      ob_message = ''App 1.2 Theta'', ob_ai_description = None\<rparr>"

text \<open>
  Catalog entries: \<open>com.x.app\<close> at 404.0.0 and at 405.1.0, and its Theta variant. Their
  download URLs have no percent escape, so that decoding leaves the filename as it is.
\<close>

definition app_404 :: app where
  "app_404 =
     \<lparr>a_name = Some ''App'', a_bundleIdentifier = Some ''com.x.app'',
      a_version = Some ''404.0.0'',
      a_downloadURL = Some ''https://example.com/o/r/releases/download/latest/App_v404.0.0.ipa''\<rparr>"

definition app_405 :: app where
  "app_405 =
     \<lparr>a_name = Some ''App'', a_bundleIdentifier = Some ''com.x.app'',
      a_version = Some ''405.1.0'',
      a_downloadURL = Some ''https://example.com/o/r/releases/download/latest/App_v405.1.0.ipa''\<rparr>"

definition app_theta :: app where
  "app_theta =
     \<lparr>a_name = Some ''App (Theta)'', a_bundleIdentifier = Some ''com.x.app'',
      a_version = Some ''1.2'',
      a_downloadURL = Some ''https://example.com/o/r/releases/download/latest/App_v1.2_Theta.ipa''\<rparr>"

section \<open>Notions and scenarios used in the other properties\<close>

subsection \<open>Answers of the inference service\<close>

text \<open>
  Two answers for an Instagram package: one names a tweak that is in no registry used
  below, the other names Theta in lower case.
\<close>

definition md_fake :: ai_metadata where
  "md_fake =
     \<lparr>ai_app_name = Some ''Instagram'', ai_version = Some ''405.1.0'',
      ai_tweak_name = Some ''InstaFake'', ai_bundle_id = Some ''com.burbn.instagram'',
      ai_description = Some ''Instagram with InstaFake''\<rparr>"

definition md_theta :: ai_metadata where
  "md_theta =
     \<lparr>ai_app_name = Some ''Instagram'', ai_version = Some ''405.1.0'',
      ai_tweak_name = Some ''theta'', ai_bundle_id = Some ''com.burbn.instagram'',
      ai_description = Some ''Instagram with Theta''\<rparr>"

subsection \<open>Groups of duplicates\<close>

text \<open>
  A group mismatches when the tweak of one of its files to delete is not the tweak of
  its file to keep, tweaks being compared as the validation compares them. A group is
  proposed when it occurs in an answer of the inference service. A cache is validated
  when it holds proposed groups without mismatch only.
\<close>

definition tweak_mismatch :: "string list \<Rightarrow> dup_group \<Rightarrow> bool" where
  "tweak_mismatch known_tweaks g =
     (\<exists>delete_file \<in> set (g_delete g).
        tweak_normalized (extract_tweak_from_filename (g_keep g) known_tweaks) \<noteq>
        tweak_normalized (extract_tweak_from_filename delete_file known_tweaks))"

definition proposed :: "(string list \<Rightarrow> dup_group list option) \<Rightarrow> dup_group \<Rightarrow> bool" where
  "proposed ai g = (\<exists>batch groups. ai batch = Some groups \<and> g \<in> set groups)"

definition cache_validated ::
  "string list \<Rightarrow> (string list \<Rightarrow> dup_group list option) \<Rightarrow> 'k batch_cache \<Rightarrow> bool" where
  "cache_validated known_tweaks ai cache =
     (\<forall>k groups. cache k = Some groups \<longrightarrow>
        (\<forall>g \<in> set groups. \<not> tweak_mismatch known_tweaks g \<and> proposed ai g))"

text \<open>
  Four files of a release and two groups over them: the first keeps a BHInsta file and
  deletes a Theta file, the second keeps a Theta file and deletes an older one.
\<close>

definition release_files :: "string list" where
  "release_files =
     [''Instagram v405.1.0 BHInsta v1.2 blatant Patched.ipa'',
      ''Instagram v404.0.0 Theta v4.0 blatant Patched.ipa'',
      ''Instagram v405.1.0 Theta v4.0 blatant Patched.ipa'',
      ''Instagram v404.0.0 theta v3.9 blatant Patched.ipa'']"

definition group_bh_theta :: dup_group where
  "group_bh_theta =
     \<lparr>g_keep = ''Instagram v405.1.0 BHInsta v1.2 blatant Patched.ipa'',
      g_delete = [''Instagram v404.0.0 Theta v4.0 blatant Patched.ipa''],
      g_tweak_name = Some ''BHInsta'', g_reason = ''older version''\<rparr>"

definition group_theta :: dup_group where
  "group_theta =
     \<lparr>g_keep = ''Instagram v405.1.0 Theta v4.0 blatant Patched.ipa'',
      g_delete = [''Instagram v404.0.0 theta v3.9 blatant Patched.ipa''],
      g_tweak_name = Some ''Theta'', g_reason = ''older version''\<rparr>"

definition both_groups :: "string list \<Rightarrow> dup_group list option" where
  "both_groups batch = Some [group_bh_theta, group_theta]"

subsection \<open>Names with a parenthetical\<close>

text \<open>
  The content of the parenthetical that the conversion finds in a name, when its
  stripped form equals a non-empty entry of the registry up to case.
\<close>

definition registry_parenthetical :: "string \<Rightarrow> string list \<Rightarrow> string \<Rightarrow> bool" where
  "registry_parenthetical app_name known_tweaks content =
     (case re_match_name app_name of
        None \<Rightarrow> False
      | Some (g1, g2) \<Rightarrow>
          g2 = content \<and>
          list_ex (\<lambda>t. t \<noteq> [] \<and> py_lower t = py_lower (py_strip g2)) known_tweaks)"

text \<open>
  A name ends in a parenthetical when its last character is a closing parenthesis and
  the text between the last opening parenthesis and that character is not empty and
  has no closing parenthesis; that text is the content.
\<close>

definition trailing_parenthetical :: "string \<Rightarrow> string option" where
  "trailing_parenthetical name =
     (case rev name of
        [] \<Rightarrow> None
      | c # r \<Rightarrow>
          if c = CHR '')'' then
            (let content = rev (takeWhile (\<lambda>x. x \<noteq> CHR ''('') r)
             in if content \<noteq> [] \<and> CHR '')'' \<notin> set content \<and> CHR ''('' \<in> set r
                then Some content else None)
          else None)"

definition app_only_theta :: app where
  "app_only_theta =
     \<lparr>a_name = Some ''(Theta)'', a_bundleIdentifier = Some ''com.burbn.instagram'',
      a_version = Some ''405.1.0'', a_downloadURL = None\<rparr>"

definition app_instagram_theta :: app where
  "app_instagram_theta =
     \<lparr>a_name = Some ''Instagram (THETA)'', a_bundleIdentifier = Some ''com.burbn.instagram'',
      a_version = Some ''405.1.0'', a_downloadURL = None\<rparr>"

definition app_instagram_pro :: app where
  "app_instagram_pro =
     \<lparr>a_name = Some ''Instagram (Pro)'', a_bundleIdentifier = Some ''com.burbn.instagram'',
      a_version = Some ''405.1.0'', a_downloadURL = None\<rparr>"

section \<open>Properties of the version comparator\<close>

subsection \<open>Words and tokens\<close>

lemma split_words_nonempty:
  "w \<noteq> [] \<Longrightarrow> split_words w s =
     (w @ takeWhile (\<lambda>c. \<not> py_isspace c) s) # split_words [] (dropWhile (\<lambda>c. \<not> py_isspace c) s)"
  by (induction s arbitrary: w) auto

lemma split_words_skip: "split_words [] s = split_words [] (dropWhile py_isspace s)"
  by (induction s) auto

lemma py_split_no_word: "\<not> has_word v \<Longrightarrow> py_split v = []"
  unfolding py_split_def has_word_def by (induction v) auto

lemma py_split_first_word:
  assumes "has_word v"
  shows "\<exists>r. py_split v = first_word v # r"
proof -
  from assms have "dropWhile py_isspace v \<noteq> []"
    unfolding has_word_def by simp
  then obtain c cs where d: "dropWhile py_isspace v = c # cs"
    by (cases "dropWhile py_isspace v") auto
  have c: "\<not> py_isspace c"
    using hd_dropWhile[of py_isspace v] d by simp
  have "py_split v = split_words [] (c # cs)"
    unfolding py_split_def using split_words_skip[of v] d by simp
  also have "\<dots> = split_words [c] cs" using c by simp
  also have "\<dots> = ([c] @ takeWhile (\<lambda>c. \<not> py_isspace c) cs) # split_words [] (dropWhile (\<lambda>c. \<not> py_isspace c) cs)"
    by (rule split_words_nonempty) simp
  finally show ?thesis unfolding first_word_def d using c by simp
qed

lemma spec_tokens_Cons:
  "spec_tokens (c # cs) = (if c = CHR ''.'' \<or> c = CHR ''-'' then [] # spec_tokens cs
     else (c # hd (spec_tokens cs)) # tl (spec_tokens cs))"
  by (simp add: spec_tokens_def)

lemma spec_tokens_Nil: "spec_tokens [] = [[]]"
  by (simp add: spec_tokens_def)

lemma spec_tokens_not_Nil: "spec_tokens s \<noteq> []"
  by (cases s) (simp_all add: spec_tokens_Nil spec_tokens_Cons)

lemma re_split_acc_spec:
  "re_split_acc w s = (w @ hd (spec_tokens s)) # tl (spec_tokens s)"
  by (induction s arbitrary: w) (simp_all add: spec_tokens_Nil spec_tokens_Cons spec_tokens_not_Nil)

lemma re_split_spec_tokens: "re_split_dot_dash s = spec_tokens s"
  unfolding re_split_dot_dash_def re_split_acc_spec using spec_tokens_not_Nil[of s] by simp


lemma nat_48_57: "48 \<le> (n::nat) \<Longrightarrow> n \<le> 57 \<Longrightarrow>
  n = 48 \<or> n = 49 \<or> n = 50 \<or> n = 51 \<or> n = 52 \<or> n = 53 \<or> n = 54 \<or> n = 55 \<or> n = 56 \<or> n = 57"
  by arith

lemma char_by_code: "(of_char c :: nat) = of_char d \<Longrightarrow> c = d"
  by simp

lemma ascii_digit_iff: "ascii_digit c \<longleftrightarrow> c \<in> set ''0123456789''"
proof
  assume "ascii_digit c"
  then have "48 \<le> (of_char c :: nat)" "(of_char c :: nat) \<le> 57"
    by (simp_all add: ascii_digit_def py_ord_def)
  then consider "(of_char c :: nat) = 48" | "(of_char c :: nat) = 49" | "(of_char c :: nat) = 50"
    | "(of_char c :: nat) = 51" | "(of_char c :: nat) = 52" | "(of_char c :: nat) = 53"
    | "(of_char c :: nat) = 54" | "(of_char c :: nat) = 55" | "(of_char c :: nat) = 56"
    | "(of_char c :: nat) = 57"
    using nat_48_57[of "of_char c"] by blast
  then show "c \<in> set ''0123456789''"
  proof cases
    case 1 then have "c = CHR ''0''" by (intro char_by_code) simp then show ?thesis by simp
  next
    case 2 then have "c = CHR ''1''" by (intro char_by_code) simp then show ?thesis by simp
  next
    case 3 then have "c = CHR ''2''" by (intro char_by_code) simp then show ?thesis by simp
  next
    case 4 then have "c = CHR ''3''" by (intro char_by_code) simp then show ?thesis by simp
  next
    case 5 then have "c = CHR ''4''" by (intro char_by_code) simp then show ?thesis by simp
  next
    case 6 then have "c = CHR ''5''" by (intro char_by_code) simp then show ?thesis by simp
  next
    case 7 then have "c = CHR ''6''" by (intro char_by_code) simp then show ?thesis by simp
  next
    case 8 then have "c = CHR ''7''" by (intro char_by_code) simp then show ?thesis by simp
  next
    case 9 then have "c = CHR ''8''" by (intro char_by_code) simp then show ?thesis by simp
  next
    case 10 then have "c = CHR ''9''" by (intro char_by_code) simp then show ?thesis by simp
  qed
next
  assume "c \<in> set ''0123456789''"
  then have "c = CHR ''0'' \<or> c = CHR ''1'' \<or> c = CHR ''2'' \<or> c = CHR ''3'' \<or> c = CHR ''4''
     \<or> c = CHR ''5'' \<or> c = CHR ''6'' \<or> c = CHR ''7'' \<or> c = CHR ''8'' \<or> c = CHR ''9''"
    by simp
  then show "ascii_digit c" by (elim disjE) (simp_all add: ascii_digit_def py_ord_def)
qed

lemma digit_value_spec: "ascii_digit c \<Longrightarrow> digit_value c = spec_digit c"
proof -
  assume "ascii_digit c"
  then have "c = CHR ''0'' \<or> c = CHR ''1'' \<or> c = CHR ''2'' \<or> c = CHR ''3'' \<or> c = CHR ''4''
     \<or> c = CHR ''5'' \<or> c = CHR ''6'' \<or> c = CHR ''7'' \<or> c = CHR ''8'' \<or> c = CHR ''9''"
    by (simp add: ascii_digit_iff)
  then show ?thesis
    by (elim disjE) (simp_all add: digit_value_def spec_digit_def py_ord_def)
qed

lemma spec_numeric_iff: "spec_numeric t \<longleftrightarrow> t \<noteq> [] \<and> list_all ascii_digit t"
  unfolding spec_numeric_def list_all_iff using ascii_digit_iff by blast

lemma horner_spec_decimal:
  "list_all ascii_digit t \<Longrightarrow>
     foldl (\<lambda>acc c. 10 * acc + digit_value c) k t = k * 10 ^ length t + spec_decimal t"
  by (induction t arbitrary: k) (simp_all add: digit_value_spec algebra_simps)

lemma py_int_spec: "int_accepts t \<Longrightarrow> py_int t = Inr (spec_decimal t)"
  by (simp add: py_int_def int_accepts_def horner_spec_decimal)

lemma int_tokens_spec:
  "\<forall>t \<in> set ts. py_isdigit t \<longrightarrow> int_accepts t \<Longrightarrow>
     int_tokens ts = Inr (map spec_decimal (filter spec_numeric ts))"
proof (induction ts)
  case Nil
  show ?case by simp
next
  case (Cons t ts)
  then have ih: "int_tokens ts = Inr (map spec_decimal (filter spec_numeric ts))" by simp
  show ?case
  proof (cases "py_isdigit t")
    case True
    with Cons.prems have a: "int_accepts t" by simp
    from True have "t \<noteq> []" by (simp add: py_isdigit_def)
    with a have "spec_numeric t" by (simp add: spec_numeric_iff int_accepts_def)
    then show ?thesis using True a ih by (simp add: py_int_spec)
  next
    case False
    then have "\<not> spec_numeric t"
      by (auto simp: spec_numeric_iff py_isdigit_def isdigit_char_def list_all_iff)
    then show ?thesis using False ih by simp
  qed
qed

lemma int_tokens_raises:
  "\<exists>t \<in> set ts. py_isdigit t \<and> \<not> int_accepts t \<Longrightarrow> int_tokens ts = Inl ValueError"
proof (induction ts)
  case Nil
  then show ?case by simp
next
  case (Cons t ts)
  show ?case
  proof (cases "py_isdigit t \<and> \<not> int_accepts t")
    case True
    then show ?thesis by (simp add: py_int_def)
  next
    case False
    with Cons.prems have "\<exists>t \<in> set ts. py_isdigit t \<and> \<not> int_accepts t" by auto
    then have "int_tokens ts = Inl ValueError" by (rule Cons.IH)
    then show ?thesis using False by (auto simp: py_int_def)
  qed
qed

lemma py_list_gt_lexordp: "py_list_gt xs ys \<longleftrightarrow> ord_class.lexordp ys xs"
  by (induction xs ys rule: py_list_gt.induct) auto

subsection \<open>The two branches of \<open>compare_versions\<close>\<close>

lemma version_parts_ok:
  "\<not> parse_raises v \<Longrightarrow> version_parts v = Inr (spec_tuple (first_word v))"
proof -
  assume a: "\<not> parse_raises v"
  then have w: "has_word v"
    and t: "\<forall>t \<in> set (re_split_dot_dash (first_word v)). py_isdigit t \<longrightarrow> int_accepts t"
    by (auto simp: parse_raises_def)
  from py_split_first_word[OF w] obtain r where "py_split v = first_word v # r" ..
  then show ?thesis
    using int_tokens_spec[OF t] by (simp add: version_parts_def spec_tuple_def re_split_spec_tokens)
qed

lemma version_parts_raises:
  assumes "parse_raises v"
  shows "\<exists>e. version_parts v = Inl e"
proof (cases "has_word v")
  case False
  then show ?thesis by (simp add: version_parts_def py_split_no_word)
next
  case True
  with assms have "\<exists>t \<in> set (re_split_dot_dash (first_word v)). py_isdigit t \<and> \<not> int_accepts t"
    by (simp add: parse_raises_def)
  then have "int_tokens (re_split_dot_dash (first_word v)) = Inl ValueError"
    by (rule int_tokens_raises)
  moreover from py_split_first_word[OF True] obtain r where "py_split v = first_word v # r" ..
  ultimately show ?thesis by (simp add: version_parts_def)
qed

lemma timestamp_newer_spec:
  "timestamp_newer tA tB = (case (tA, tB) of (Some x, Some y) \<Rightarrow> y < x | _ \<Rightarrow> False)"
  by (simp add: timestamp_newer_def split: option.splits)

lemma compare_versions_numeric:
  assumes "\<not> parse_raises a" "\<not> parse_raises b"
  shows "compare_versions a b tA tB = spec_is_newer (first_word a) (first_word b) tA tB"
proof -
  have "compare_versions_try a b tA tB = Inr (spec_is_newer (first_word a) (first_word b) tA tB)"
    unfolding compare_versions_try_def version_parts_ok[OF assms(1)] version_parts_ok[OF assms(2)]
      spec_is_newer_def spec_pad_def Let_def timestamp_newer_spec py_list_gt_lexordp
    by simp
  then show ?thesis by (simp add: compare_versions_def)
qed

lemma compare_versions_fallback:
  assumes "parse_raises a \<or> parse_raises b"
  shows "compare_versions a b tA tB = compare_versions_except a b tA tB"
proof -
  have "\<exists>e. compare_versions_try a b tA tB = Inl e"
  proof (cases "parse_raises a")
    case True
    from version_parts_raises[OF this] show ?thesis
      by (auto simp: compare_versions_try_def)
  next
    case False
    with assms have "parse_raises b" by simp
    from version_parts_raises[OF this] show ?thesis
      by (auto simp: compare_versions_try_def split: sum.splits)
  qed
  then show ?thesis by (auto simp: compare_versions_def)
qed

lemma spec_tokens_chars: "t \<in> set (spec_tokens s) \<Longrightarrow> set t \<subseteq> set s"
proof (induction s arbitrary: t)
  case Nil
  then show ?case by (simp add: spec_tokens_Nil)
next
  case (Cons c cs)
  obtain u us where ts: "spec_tokens cs = u # us"
    using spec_tokens_not_Nil[of cs] by (cases "spec_tokens cs") auto
  have u: "set u \<subseteq> set cs" and us: "\<And>x. x \<in> set us \<Longrightarrow> set x \<subseteq> set cs"
    using Cons.IH ts by auto
  from Cons.prems show ?case
    using u us by (auto simp: spec_tokens_Cons ts split: if_splits)
qed

lemma first_word_chars: "set (first_word v) \<subseteq> set v"
  unfolding first_word_def by (meson set_dropWhileD set_takeWhileD subsetI)

lemma spec_tokens_length: "t \<in> set (spec_tokens s) \<Longrightarrow> length t \<le> length s"
proof (induction s arbitrary: t)
  case Nil
  then show ?case by (simp add: spec_tokens_Nil)
next
  case (Cons c cs)
  obtain u us where ts: "spec_tokens cs = u # us"
    using spec_tokens_not_Nil[of cs] by (cases "spec_tokens cs") auto
  have u: "length u \<le> length cs" and us: "\<And>x. x \<in> set us \<Longrightarrow> length x \<le> length cs"
    using Cons.IH ts by auto
  from Cons.prems show ?case
    using u us by (auto simp: spec_tokens_Cons ts le_SucI split: if_splits)
qed

lemma first_word_length: "length (first_word v) \<le> length v"
proof -
  have "length (first_word v) \<le> length (dropWhile py_isspace v)"
    unfolding first_word_def by (rule length_takeWhile_le)
  also have "\<dots> \<le> length v" by (rule length_dropWhile_le)
  finally show ?thesis .
qed

lemma plain_version_not_raises:
  assumes "has_word v" and "py_isascii v" and "length v \<le> int_max_str_digits"
  shows "\<not> parse_raises v"
proof -
  have "int_accepts t"
    if t: "t \<in> set (re_split_dot_dash (first_word v))" and d: "py_isdigit t" for t
  proof -
    from t have "set t \<subseteq> set v"
      using spec_tokens_chars[of t "first_word v"] first_word_chars[of v]
      by (auto simp: re_split_spec_tokens)
    with assms(2) have "py_ord c < 128" if "c \<in> set t" for c
      using that by (auto simp: py_isascii_def list_all_iff)
    then have "\<forall>c \<in> set t. \<not> superscript_digit c"
      by (fastforce simp: superscript_digit_def)
    with d have a: "list_all ascii_digit t"
      by (auto simp: py_isdigit_def isdigit_char_def list_all_iff)
    from t have "length t \<le> length (first_word v)"
      using spec_tokens_length[of t "first_word v"] by (simp add: re_split_spec_tokens)
    with first_word_length[of v] assms(3) have "length t \<le> int_max_str_digits" by simp
    with a show ?thesis by (simp add: int_accepts_def)
  qed
  with assms(1) show ?thesis by (auto simp: parse_raises_def)
qed

lemma compare_versions_irreflexive: "\<not> compare_versions v v None None"
proof (cases "parse_raises v")
  case True
  then show ?thesis
    by (simp add: compare_versions_fallback compare_versions_except_def timestamp_newer_def)
next
  case False
  then show ?thesis
    by (simp add: compare_versions_numeric spec_is_newer_def Let_def)
qed

subsection \<open>Claim C1\<close>

text \<open>
  Claim C1, as stated, has \<open>compare_versions\<close> implement the numeric reference
  definition on the version strings themselves whenever each contains a numeric token.
  The code parses the first whitespace-delimited word only, so the two disagree on a
  version that has a separator after its first word: for \<open>1.2 beta.3\<close> against
  \<open>1.2.5\<close> the reference compares \<open>(1, 3, 0)\<close> with \<open>(1, 2, 5)\<close> and the code
  \<open>(1, 2, 0)\<close> with \<open>(1, 2, 5)\<close>.
\<close>

theorem compare_versions_numeric_reference_counterexample:
  "spec_has_numeric_token ''1.2 beta.3'' \<and> spec_has_numeric_token ''1.2.5'' \<and>
   spec_is_newer ''1.2 beta.3'' ''1.2.5'' None None \<and>
   \<not> compare_versions ''1.2 beta.3'' ''1.2.5'' None None"
  by code_simp

text \<open>
  Claim C1, amended: for all version strings \<open>a\<close> and \<open>b\<close> of ASCII characters that
  have a word and no more characters than \<open>int\<close> accepts digits,
  \<open>compare_versions\<close> is the numeric reference definition applied to the first word of
  \<open>a\<close> and the first word of \<open>b\<close>: the numeric tokens between dots and dashes as
  integers, the shorter tuple padded with zeros, the lexicographic comparison, and on
  equal tuples the strictly greater timestamp when both are given and \<open>False\<close>
  otherwise. In particular no version is newer than itself without timestamps. The
  condition on the characters leaves out the versions with a digit that \<open>isdigit\<close>
  accepts and \<open>int\<close> does not read as the reference does: claim C2 has those of the
  model.
\<close>

theorem compare_versions_numeric_reference:
  assumes "has_word a" and "has_word b"
    and "py_isascii a" and "py_isascii b"
    and "length a \<le> int_max_str_digits" and "length b \<le> int_max_str_digits"
  shows "compare_versions a b tA tB = spec_is_newer (first_word a) (first_word b) tA tB
         \<and> \<not> compare_versions a a None None"
  using assms
  by (simp add: compare_versions_numeric plain_version_not_raises compare_versions_irreflexive)

theorem compare_versions_numeric_reference_witness:
  "has_word ''2.21'' \<and> has_word ''2.2'' \<and> py_isascii ''2.21'' \<and>
   py_isascii ''2.2'' \<and> length ''2.21'' \<le> int_max_str_digits \<and>
   length ''2.2'' \<le> int_max_str_digits \<and>
   first_word ''2.21'' = ''2.21'' \<and> first_word ''2.2'' = ''2.2'' \<and>
   spec_is_newer ''2.21'' ''2.2'' None None \<and>
   compare_versions ''2.21'' ''2.2'' None None \<and> \<not> compare_versions ''2.21'' ''2.21'' None None"
proof -
  have h1: "has_word ''2.21''" and h2: "has_word ''2.2''" by code_simp+
  have h3: "py_isascii ''2.21''" and h4: "py_isascii ''2.2''" by code_simp+
  have h5: "length ''2.21'' \<le> int_max_str_digits" and h6: "length ''2.2'' \<le> int_max_str_digits"
    by (simp_all add: int_max_str_digits_def)
  have w1: "first_word ''2.21'' = ''2.21''" and w2: "first_word ''2.2'' = ''2.2''" by code_simp+
  have s: "spec_is_newer ''2.21'' ''2.2'' None None" by code_simp
  from compare_versions_numeric_reference[OF h1 h2 h3 h4 h5 h6, of None None] s
  show ?thesis using h1 h2 h3 h4 h5 h6 w1 w2 by simp
qed

subsection \<open>Claim C2\<close>

text \<open>
  Claim C2, as stated, sends garbage without numeric token, such as \<open>abc\<close>, to the
  comparison of the strings. Such a version raises nothing: its tuple is empty, and two
  empty tuples are equal, so that \<open>abd\<close> is not newer than \<open>abc\<close> although it is the
  greater string.
\<close>

theorem compare_versions_garbage_counterexample:
  "version_parts ''abd'' = Inr [] \<and> version_parts ''abc'' = Inr [] \<and>
   py_str_gt ''abd'' ''abc'' \<and> \<not> compare_versions ''abd'' ''abc'' None None"
  by code_simp

text \<open>
  Claim C2, amended: \<open>compare_versions\<close> returns a truth value on all strings. It is the
  comparison of the strings, with the timestamp tie-break on equal strings, exactly when
  parsing raises, that is when a version has no word or has in its first word a digit
  token that \<open>int\<close> refuses; on every other input, garbage without numeric token included, it is the
  numeric comparison of the tuples of the first words.
\<close>

theorem compare_versions_fallback_exactly_on_raise:
  "compare_versions a b tA tB =
     (if parse_raises a \<or> parse_raises b
      then (if a = b then timestamp_newer tA tB else py_str_gt a b)
      else spec_is_newer (first_word a) (first_word b) tA tB)"
  by (simp add: compare_versions_numeric compare_versions_fallback compare_versions_except_def)

theorem compare_versions_fallback_exactly_on_raise_witness:
  "parse_raises '''' \<and> compare_versions '''' ''1.0'' None None = py_str_gt '''' ''1.0'' \<and>
   \<not> parse_raises ''abd'' \<and> \<not> parse_raises ''abc'' \<and>
   compare_versions ''abd'' ''abc'' (Some 7) (Some 3) =
     spec_is_newer ''abd'' ''abc'' (Some 7) (Some 3) \<and>
   compare_versions ''abd'' ''abc'' (Some 7) (Some 3)"
proof -
  have r: "parse_raises ''''" by code_simp
  have n1: "\<not> parse_raises ''abd''" and n2: "\<not> parse_raises ''abc''" by code_simp+
  have w: "first_word ''abd'' = ''abd''" "first_word ''abc'' = ''abc''" by code_simp+
  have s: "spec_is_newer ''abd'' ''abc'' (Some 7) (Some 3)" by code_simp
  from compare_versions_fallback_exactly_on_raise[of "''''" "''1.0''" None None]
    compare_versions_fallback_exactly_on_raise[of "''abd''" "''abc''" "Some 7" "Some 3"]
  show ?thesis using r n1 n2 w s by simp
qed

section \<open>Properties of the deduplication engine\<close>

subsection \<open>The dictionary\<close>

lemma update_missing_key: "k \<notin> fst ` set al \<Longrightarrow> AList.update k v al = al @ [(k, v)]"
  by (induction al) auto

lemma update_present_keys:
  "map_of al k = Some r \<Longrightarrow> map fst (AList.update k v al) = map fst al"
  by (induction al) (auto split: if_splits)

lemma pass1_step_distinct:
  "distinct (map fst (apps_by_bundle st)) \<Longrightarrow> distinct (map fst (apps_by_bundle (pass1_step ob st)))"
  by (simp add: pass1_step_def Let_def distinct_update split: option.splits)

lemma fold_pass1_step_distinct:
  "distinct (map fst (apps_by_bundle st)) \<Longrightarrow>
   distinct (map fst (apps_by_bundle (fold pass1_step obs st)))"
  by (induction obs arbitrary: st) (simp_all add: pass1_step_distinct)

lemma pass1_distinct: "distinct (map fst (apps_by_bundle (pass1 obs files)))"
  unfolding pass1_def by (rule fold_pass1_step_distinct) simp

lemma pass1_snoc: "pass1 (obs @ [ob]) files = pass1_step ob (pass1 obs files)"
  by (simp add: pass1_def)

subsection \<open>Claim C3\<close>

text \<open>
  Claim C3: in Pass 1, when the key of a candidate observation is already in the running
  map, the map keeps exactly one entry per key and the same keys. The candidate replaces
  the resident if and only if \<open>compare_versions\<close>, given the two timestamps, says that it
  is newer; the file of the resident is then removed from the download directory, and
  the new entry holds the fields of the candidate (its metadata, filename, version,
  source, message, tweak, timestamp and description) and, as \<open>old_filename\<close>, the
  filename of the resident. Otherwise the candidate is discarded and nothing changes.
  The entries of the other keys are left as they are.
\<close>

theorem pass1_candidate_against_resident:
  assumes "st = pass1 obs files"
    and "key = unique_app_key (info_bundleIdentifier (ob_info ob)) (ob_best_tweak ob)"
    and "map_of (apps_by_bundle st) key = Some resident"
    and "newer = compare_versions (info_version (ob_info ob)) (e_version resident)
           (Some (ob_message_timestamp ob)) (Some (e_timestamp resident))"
    and "st' = pass1 (obs @ [ob]) files"
  shows "distinct (map fst (apps_by_bundle st')) \<and>
         map fst (apps_by_bundle st') = map fst (apps_by_bundle st) \<and>
         (\<forall>k. k \<noteq> key \<longrightarrow> map_of (apps_by_bundle st') k = map_of (apps_by_bundle st) k) \<and>
         (newer \<longrightarrow>
            map_of (apps_by_bundle st') key =
              Some \<lparr>e_info = ob_info ob, e_filename = ob_filename ob,
                    e_version = info_version (ob_info ob), e_source = ob_source ob,
                    e_message = ob_message ob, e_tweak = ob_best_tweak ob,
                    e_timestamp = ob_message_timestamp ob,
                    e_ai_description = ob_ai_description ob,
                    e_old_filename = Some (e_filename resident)\<rparr> \<and>
            download_dir st' = download_dir st - {e_filename resident}) \<and>
         (\<not> newer \<longrightarrow> st' = st)"
proof -
  have d: "distinct (map fst (apps_by_bundle st'))"
    unfolding assms(5) by (rule pass1_distinct)
  have s: "st' = pass1_step ob st"
    unfolding assms(5) assms(1) by (rule pass1_snoc)
  show ?thesis
  proof (cases newer)
    case True
    then have "st' = \<lparr>apps_by_bundle =
        AList.update key (make_entry ob (Some (e_filename resident))) (apps_by_bundle st),
        download_dir = download_dir st - {e_filename resident}\<rparr>"
      using assms(2,3,4) unfolding s by (simp add: pass1_step_def Let_def)
    then show ?thesis
      using d True assms(3) by (simp add: update_present_keys update_conv' make_entry_def)
  next
    case False
    then have "st' = st"
      using assms(2,3,4) unfolding s by (simp add: pass1_step_def Let_def)
    then show ?thesis using d False by simp
  qed
qed

text \<open>
  The scenario of the specification, in both orders. When 405.1.0 arrives second it
  replaces 404.0.0, whose file is removed and remembered; when it arrives first, 404.0.0
  is discarded. Either way the map holds the one entry of \<open>com.x.app\<close>, at 405.1.0.
\<close>

theorem pass1_candidate_against_resident_witness:
  "map_of (apps_by_bundle (pass1 [obs_404] {''App_v404.0.0.ipa'', ''App_v405.1.0.ipa''}))
     ''com.x.app'' =
     Some \<lparr>e_info = \<lparr>info_bundleIdentifier = ''com.x.app'', info_name = ''App'',
                     info_version = ''404.0.0''\<rparr>,
           e_filename = ''App_v404.0.0.ipa'', e_version = ''404.0.0'', e_source = ''channel'',
           e_message = ''App 404.0.0'', e_tweak = None, e_timestamp = 100,
           e_ai_description = None, e_old_filename = None\<rparr> \<and>
   compare_versions ''405.1.0'' ''404.0.0'' (Some 200) (Some 100) \<and>
   apps_by_bundle (pass1 [obs_404, obs_405] {''App_v404.0.0.ipa'', ''App_v405.1.0.ipa''}) =
     [(''com.x.app'',
       \<lparr>e_info = \<lparr>info_bundleIdentifier = ''com.x.app'', info_name = ''App'',
                     info_version = ''405.1.0''\<rparr>,
           e_filename = ''App_v405.1.0.ipa'', e_version = ''405.1.0'', e_source = ''channel'',
           e_message = ''App 405.1.0'', e_tweak = None, e_timestamp = 200,
           e_ai_description = None, e_old_filename = Some ''App_v404.0.0.ipa''\<rparr>)] \<and>
   download_dir (pass1 [obs_404, obs_405] {''App_v404.0.0.ipa'', ''App_v405.1.0.ipa''}) =
     {''App_v405.1.0.ipa''} \<and>
   map_of (apps_by_bundle (pass1 [obs_405] {''App_v404.0.0.ipa'', ''App_v405.1.0.ipa''}))
     ''com.x.app'' =
     Some \<lparr>e_info = \<lparr>info_bundleIdentifier = ''com.x.app'', info_name = ''App'',
                     info_version = ''405.1.0''\<rparr>,
           e_filename = ''App_v405.1.0.ipa'', e_version = ''405.1.0'', e_source = ''channel'',
           e_message = ''App 405.1.0'', e_tweak = None, e_timestamp = 200,
           e_ai_description = None, e_old_filename = None\<rparr> \<and>
   \<not> compare_versions ''404.0.0'' ''405.1.0'' (Some 100) (Some 200) \<and>
   pass1 [obs_405, obs_404] {''App_v404.0.0.ipa'', ''App_v405.1.0.ipa''} =
     \<lparr>apps_by_bundle =
        [(''com.x.app'',
          \<lparr>e_info = \<lparr>info_bundleIdentifier = ''com.x.app'', info_name = ''App'',
                     info_version = ''405.1.0''\<rparr>,
           e_filename = ''App_v405.1.0.ipa'', e_version = ''405.1.0'', e_source = ''channel'',
           e_message = ''App 405.1.0'', e_tweak = None, e_timestamp = 200,
           e_ai_description = None, e_old_filename = None\<rparr>)],
      download_dir = {''App_v404.0.0.ipa'', ''App_v405.1.0.ipa''}\<rparr>"
proof -
  let ?F = "{''App_v404.0.0.ipa'', ''App_v405.1.0.ipa''}"
  have k: "unique_app_key (info_bundleIdentifier (ob_info obs_405)) (ob_best_tweak obs_405) = ''com.x.app''"
    "unique_app_key (info_bundleIdentifier (ob_info obs_404)) (ob_best_tweak obs_404) = ''com.x.app''"
    by (simp_all add: obs_405_def obs_404_def unique_app_key_def)
  have p4: "pass1 [obs_404] ?F = \<lparr>apps_by_bundle = [(''com.x.app'', make_entry obs_404 None)], download_dir = ?F\<rparr>"
    by (simp add: pass1_def pass1_step_def k)
  have p5: "pass1 [obs_405] ?F = \<lparr>apps_by_bundle = [(''com.x.app'', make_entry obs_405 None)], download_dir = ?F\<rparr>"
    by (simp add: pass1_def pass1_step_def k)
  have r4: "map_of (apps_by_bundle (pass1 [obs_404] ?F)) ''com.x.app'' = Some (make_entry obs_404 None)"
    by (simp add: p4)
  have r5: "map_of (apps_by_bundle (pass1 [obs_405] ?F)) ''com.x.app'' = Some (make_entry obs_405 None)"
    by (simp add: p5)
  have n: "compare_versions ''405.1.0'' ''404.0.0'' (Some 200) (Some 100)"
    and o: "\<not> compare_versions ''404.0.0'' ''405.1.0'' (Some 100) (Some 200)"
    by code_simp+
  have f4: "info_version (ob_info obs_404) = ''404.0.0''" "ob_message_timestamp obs_404 = 100"
    "e_version (make_entry obs_404 None) = ''404.0.0''" "e_timestamp (make_entry obs_404 None) = 100"
    "e_filename (make_entry obs_404 None) = ''App_v404.0.0.ipa''"
    by (simp_all add: obs_404_def make_entry_def)
  have f5: "info_version (ob_info obs_405) = ''405.1.0''" "ob_message_timestamp obs_405 = 200"
    "e_version (make_entry obs_405 None) = ''405.1.0''" "e_timestamp (make_entry obs_405 None) = 200"
    by (simp_all add: obs_405_def make_entry_def)
  have a: "map_of (apps_by_bundle (pass1 [obs_404] ?F))
      (unique_app_key (info_bundleIdentifier (ob_info obs_405)) (ob_best_tweak obs_405)) =
      Some (make_entry obs_404 None)"
    by (simp add: k r4)
  have b: "map_of (apps_by_bundle (pass1 [obs_405] ?F))
      (unique_app_key (info_bundleIdentifier (ob_info obs_404)) (ob_best_tweak obs_404)) =
      Some (make_entry obs_405 None)"
    by (simp add: k r5)
  note first = pass1_candidate_against_resident[OF refl refl a refl refl, folded make_entry_def]
  note second = pass1_candidate_against_resident[OF refl refl b refl refl]
  have m: "map_of (apps_by_bundle (pass1 ([obs_404] @ [obs_405]) ?F)) ''com.x.app'' =
       Some (make_entry obs_405 (Some ''App_v404.0.0.ipa''))"
    and dd: "download_dir (pass1 ([obs_404] @ [obs_405]) ?F) = ?F - {''App_v404.0.0.ipa''}"
    using first n by (simp_all add: f4 f5 k p4)
  have keys: "map fst (apps_by_bundle (pass1 ([obs_404] @ [obs_405]) ?F)) = [''com.x.app'']"
    using first by (simp add: p4)
  have al: "apps_by_bundle (pass1 ([obs_404] @ [obs_405]) ?F) =
      [(''com.x.app'', make_entry obs_405 (Some ''App_v404.0.0.ipa''))]"
  proof (cases "apps_by_bundle (pass1 ([obs_404] @ [obs_405]) ?F)")
    case Nil
    with keys show ?thesis by simp
  next
    case (Cons x xs)
    with keys have "xs = []" and "fst x = ''com.x.app''" by auto
    with Cons m show ?thesis by (cases x) auto
  qed
  have same: "pass1 ([obs_405] @ [obs_404]) ?F = pass1 [obs_405] ?F"
    using second o by (simp add: f4 f5)
  have e4: "make_entry obs_404 None =
      \<lparr>e_info = \<lparr>info_bundleIdentifier = ''com.x.app'', info_name = ''App'',
                     info_version = ''404.0.0''\<rparr>,
           e_filename = ''App_v404.0.0.ipa'', e_version = ''404.0.0'', e_source = ''channel'',
           e_message = ''App 404.0.0'', e_tweak = None, e_timestamp = 100,
           e_ai_description = None, e_old_filename = None\<rparr>"
    and e5: "make_entry obs_405 None =
      \<lparr>e_info = \<lparr>info_bundleIdentifier = ''com.x.app'', info_name = ''App'',
                     info_version = ''405.1.0''\<rparr>,
           e_filename = ''App_v405.1.0.ipa'', e_version = ''405.1.0'', e_source = ''channel'',
           e_message = ''App 405.1.0'', e_tweak = None, e_timestamp = 200,
           e_ai_description = None, e_old_filename = None\<rparr>"
    and e5': "make_entry obs_405 (Some ''App_v404.0.0.ipa'') =
      \<lparr>e_info = \<lparr>info_bundleIdentifier = ''com.x.app'', info_name = ''App'',
                     info_version = ''405.1.0''\<rparr>,
           e_filename = ''App_v405.1.0.ipa'', e_version = ''405.1.0'', e_source = ''channel'',
           e_message = ''App 405.1.0'', e_tweak = None, e_timestamp = 200,
           e_ai_description = None, e_old_filename = Some ''App_v404.0.0.ipa''\<rparr>"
    by (simp_all add: make_entry_def obs_404_def obs_405_def)
  have dd': "download_dir (pass1 ([obs_404] @ [obs_405]) ?F) = {''App_v405.1.0.ipa''}"
    unfolding dd by auto
  show ?thesis
    using r4 n al dd' r5 o same by (simp add: p5 e4 e5 e5')
qed

subsection \<open>Claim C7\<close>

text \<open>
  Claim C7, as stated, addresses the two entries by the case-normalized keys
  \<open>com.x.app:bhinsta\<close> and \<open>com.x.app:theta\<close>. The key is the bundle identifier, a colon
  and the tweak as it was extracted: the keys are \<open>com.x.app:BHInsta\<close> and
  \<open>com.x.app:Theta\<close>, and the map has no entry under \<open>com.x.app:bhinsta\<close>.
\<close>

theorem distinct_tweaks_distinct_entries_counterexample:
  "unique_app_key ''com.x.app'' (Some ''BHInsta'') \<noteq> ''com.x.app:bhinsta'' \<and>
   map fst (apps_by_bundle (pass1 [obs_bhinsta, obs_theta] {})) =
     [''com.x.app:BHInsta'', ''com.x.app:Theta''] \<and>
   map_of (apps_by_bundle (pass1 [obs_bhinsta, obs_theta] {})) ''com.x.app:bhinsta'' = None"
  by (simp add: pass1_def pass1_step_def unique_app_key_def obs_bhinsta_def obs_theta_def
      make_entry_def)

text \<open>
  Claim C7, amended: two observations with the same bundle identifier and two distinct
  tweaks give two entries, in the order of arrival, neither replacing the other (no file
  is removed and no \<open>old_filename\<close> is stored); their keys are the bundle identifier, a
  colon and the tweak, in the case in which the tweak was extracted. Without tweak the
  key is the bundle identifier alone.
\<close>

theorem distinct_tweaks_distinct_entries:
  assumes "info_bundleIdentifier (ob_info o1) = b" and "info_bundleIdentifier (ob_info o2) = b"
    and "ob_best_tweak o1 = Some t1" and "ob_best_tweak o2 = Some t2"
    and "t1 \<noteq> []" and "t2 \<noteq> []" and "t1 \<noteq> t2"
  shows "pass1 [o1, o2] files =
           \<lparr>apps_by_bundle =
              [(b @ '':'' @ t1, make_entry o1 None), (b @ '':'' @ t2, make_entry o2 None)],
            download_dir = files\<rparr>
         \<and> unique_app_key b None = b"
  using assms by (simp add: pass1_def pass1_step_def unique_app_key_def Let_def)

theorem distinct_tweaks_distinct_entries_witness:
  "info_bundleIdentifier (ob_info obs_bhinsta) = ''com.x.app'' \<and>
   info_bundleIdentifier (ob_info obs_theta) = ''com.x.app'' \<and>
   ob_best_tweak obs_bhinsta = Some ''BHInsta'' \<and> ob_best_tweak obs_theta = Some ''Theta'' \<and>
   ''BHInsta'' \<noteq> [] \<and> ''Theta'' \<noteq> [] \<and> ''BHInsta'' \<noteq> ''Theta'' \<and>
   pass1 [obs_bhinsta, obs_theta] {} =
     \<lparr>apps_by_bundle =
        [(''com.x.app:BHInsta'', make_entry obs_bhinsta None),
         (''com.x.app:Theta'', make_entry obs_theta None)],
      download_dir = {}\<rparr> \<and>
   unique_app_key ''com.x.app'' None = ''com.x.app''"
proof -
  have h1: "info_bundleIdentifier (ob_info obs_bhinsta) = ''com.x.app''"
    and h2: "info_bundleIdentifier (ob_info obs_theta) = ''com.x.app''"
    and h3: "ob_best_tweak obs_bhinsta = Some ''BHInsta''"
    and h4: "ob_best_tweak obs_theta = Some ''Theta''"
    by (simp_all add: obs_bhinsta_def obs_theta_def)
  have h5: "''BHInsta'' \<noteq> []" and h6: "''Theta'' \<noteq> []" and h7: "''BHInsta'' \<noteq> ''Theta''"
    by simp_all
  from distinct_tweaks_distinct_entries[OF h1 h2 h3 h4 h5 h6 h7, of "{}"]
  show ?thesis using h1 h2 h3 h4 by simp
qed


subsection \<open>Claim C4\<close>

text \<open>
  Claim C4, as stated, lets the published entry win a version tie. Pass 2 keeps the
  published entry only when \<open>compare_versions\<close> says that its version is newer than the
  resident one, and no version is newer than itself: with the published 405.1.0 against
  the observation of 405.1.0, the observation stays in the map.
\<close>

theorem pass2_conflict_counterexample:
  "a_version app_405 = Some ''405.1.0'' \<and>
   entry_version (New (make_entry obs_405 None)) = ''405.1.0'' \<and>
   pass2 [app_405] [(''com.x.app'', New (make_entry obs_405 None))] =
     Inr [(''com.x.app'', New (make_entry obs_405 None))]"
proof -
  have "\<not> compare_versions ''405.1.0'' ''405.1.0'' None None"
    by (rule compare_versions_irreflexive)
  then show ?thesis
    by (simp add: pass2_step_def get_name_def app_405_def obs_405_def make_entry_def unique_app_key_def Let_def)
qed

text \<open>
  Claim C4, amended: when the key of a published entry is already in the map, the
  published entry replaces the resident one if and only if \<open>compare_versions\<close>, without
  timestamps, says that its version is newer; otherwise the map is left as it is. On a
  version tie the resident entry, the new observation, stays.
\<close>

theorem pass2_conflict:
  assumes "a_bundleIdentifier a = Some bundle_id" and "a_version a = Some app_version"
    and "existing_tweak = tweak_in_name (get_name a)"
    and "key = unique_app_key bundle_id existing_tweak"
    and "map_of m key = Some resident"
  shows "pass2_step a m =
           Inr (if compare_versions app_version (entry_version resident) None None
                then AList.update key (Existing a app_version existing_tweak) m else m)
         \<and> (entry_version resident = app_version \<longrightarrow> pass2_step a m = Inr m)"
  using assms by (simp add: pass2_step_def Let_def compare_versions_irreflexive)

text \<open>
  The published 405.1.0 replaces the observation of 404.0.0, and the published 404.0.0
  does not replace the observation of 405.1.0.
\<close>

theorem pass2_conflict_witness:
  "a_bundleIdentifier app_405 = Some ''com.x.app'' \<and> a_version app_405 = Some ''405.1.0'' \<and>
   map_of [(''com.x.app'', New (make_entry obs_404 None))] ''com.x.app'' =
     Some (New (make_entry obs_404 None)) \<and>
   pass2_step app_405 [(''com.x.app'', New (make_entry obs_404 None))] =
     Inr [(''com.x.app'', Existing app_405 ''405.1.0'' None)] \<and>
   pass2_step app_404 [(''com.x.app'', New (make_entry obs_405 None))] =
     Inr [(''com.x.app'', New (make_entry obs_405 None))]"
proof -
  have b5: "a_bundleIdentifier app_405 = Some ''com.x.app''"
    and v5: "a_version app_405 = Some ''405.1.0''"
    and b4: "a_bundleIdentifier app_404 = Some ''com.x.app''"
    and v4: "a_version app_404 = Some ''404.0.0''"
    by (simp_all add: app_405_def app_404_def)
  have t: "tweak_in_name ''App'' = None" by simp
  have n5: "get_name app_405 = ''App''" and n4: "get_name app_404 = ''App''"
    by (simp_all add: get_name_def app_405_def app_404_def)
  have k: "unique_app_key ''com.x.app'' None = ''com.x.app''"
    by (simp add: unique_app_key_def)
  have m4: "map_of [(''com.x.app'', New (make_entry obs_404 None))]
      (unique_app_key ''com.x.app'' (tweak_in_name (get_name app_405))) =
      Some (New (make_entry obs_404 None))"
    by (simp add: n5 k)
  have m5: "map_of [(''com.x.app'', New (make_entry obs_405 None))]
      (unique_app_key ''com.x.app'' (tweak_in_name (get_name app_404))) =
      Some (New (make_entry obs_405 None))"
    by (simp add: n4 k)
  have c1: "compare_versions ''405.1.0'' ''404.0.0'' None None"
    and c2: "\<not> compare_versions ''404.0.0'' ''405.1.0'' None None"
    by code_simp+
  have e: "e_version (make_entry obs_404 None) = ''404.0.0''"
    "e_version (make_entry obs_405 None) = ''405.1.0''"
    by (simp_all add: make_entry_def obs_404_def obs_405_def)
  from pass2_conflict[OF b5 v5 refl refl m4] pass2_conflict[OF b4 v4 refl refl m5]
  show ?thesis using b5 v5 c1 c2 by (simp add: e n4 n5 k)
qed

subsection \<open>Claim C8\<close>

lemma republish_existing:
  "republish_entry unquote assets publish_new (Existing a v t) =
     (if binary_in_storage unquote assets a then [a] else [])"
  by (simp add: republish_entry_def binary_in_storage_def Let_def)

lemma final_apps_carried:
  "final_apps unquote assets publish_new (map carried apps) =
     filter (binary_in_storage unquote assets) apps"
  by (induction apps) (simp_all add: final_apps_def carried_def republish_existing split: option.splits)



subsection \<open>Claim C9\<close>

lemma pass2_fresh_keys:
  assumes "\<forall>a \<in> set apps. a_bundleIdentifier a \<noteq> None \<and> a_version a \<noteq> None"
    and "distinct (map catalog_key apps)"
    and "\<forall>a \<in> set apps. \<forall>k. catalog_key a = Some k \<longrightarrow> k \<notin> fst ` set m"
  shows "pass2 apps m = Inr (m @ map carried apps)"
  using assms
proof (induction apps arbitrary: m)
  case Nil
  then show ?case by simp
next
  case (Cons a apps)
  from Cons.prems(1) obtain b v where b: "a_bundleIdentifier a = Some b" and v: "a_version a = Some v"
    by auto
  define t where "t = tweak_in_name (get_name a)"
  define key where "key = unique_app_key b t"
  have ck: "catalog_key a = Some key" by (simp add: catalog_key_def b key_def t_def)
  with Cons.prems(3) have fresh: "key \<notin> fst ` set m" by simp
  then have none: "map_of m key = None" by (simp add: map_of_eq_None_iff)
  have step: "pass2_step a m = Inr (m @ [carried a])"
    using none fresh
    by (simp add: pass2_step_def b v Let_def key_def[symmetric] t_def[symmetric]
        update_missing_key carried_def ck)
  have "pass2 apps (m @ [carried a]) = Inr ((m @ [carried a]) @ map carried apps)"
  proof (rule Cons.IH)
    show "\<forall>a \<in> set apps. a_bundleIdentifier a \<noteq> None \<and> a_version a \<noteq> None"
      using Cons.prems(1) by simp
    show "distinct (map catalog_key apps)" using Cons.prems(2) by simp
    show "\<forall>x \<in> set apps. \<forall>k. catalog_key x = Some k \<longrightarrow> k \<notin> fst ` set (m @ [carried a])"
    proof (intro ballI allI impI)
      fix x k assume x: "x \<in> set apps" and k: "catalog_key x = Some k"
      from Cons.prems(2) have "catalog_key a \<notin> catalog_key ` set apps" by simp
      with x have "catalog_key x \<noteq> catalog_key a" by (metis imageI)
      with k ck have "k \<noteq> key" by auto
      moreover from Cons.prems(3) x k have "k \<notin> fst ` set m" by simp
      moreover have "fst (carried a) = key" by (simp add: carried_def ck v)
      ultimately show "k \<notin> fst ` set (m @ [carried a])" by auto
    qed
  qed
  then show ?case using step by simp
qed

text \<open>
  Claim C9, as stated, carries every entry of a published catalog forward when the
  binaries are all in storage. Two entries of the catalog that have the same key are
  merged into one: of the entries of \<open>com.x.app\<close> at 404.0.0 and at 405.1.0, both with
  their binary in storage, only the second is republished.
\<close>

theorem merge_idempotent_counterexample:
  "binary_in_storage id {''App_v404.0.0.ipa'', ''App_v405.1.0.ipa''} app_404 \<and>
   binary_in_storage id {''App_v404.0.0.ipa'', ''App_v405.1.0.ipa''} app_405 \<and>
   pass2 [app_404, app_405] [] = Inr [(''com.x.app'', Existing app_405 ''405.1.0'' None)] \<and>
   final_apps id {''App_v404.0.0.ipa'', ''App_v405.1.0.ipa''} Map.empty
     [(''com.x.app'', Existing app_405 ''405.1.0'' None)] = [app_405] \<and>
   [app_405] \<noteq> [app_404, app_405]"
proof -
  have c: "compare_versions ''405.1.0'' ''404.0.0'' None None" by code_simp
  have s: "binary_in_storage id {''App_v404.0.0.ipa'', ''App_v405.1.0.ipa''} app_404"
    "binary_in_storage id {''App_v404.0.0.ipa'', ''App_v405.1.0.ipa''} app_405"
    by (simp_all add: binary_in_storage_def get_downloadURL_def app_405_def app_404_def last_segment_def)
  have p: "pass2 [app_404, app_405] [] = Inr [(''com.x.app'', Existing app_405 ''405.1.0'' None)]"
    using c by (simp add: pass2_step_def get_name_def app_405_def app_404_def unique_app_key_def Let_def)
  have f: "final_apps id {''App_v404.0.0.ipa'', ''App_v405.1.0.ipa''} Map.empty
     [(''com.x.app'', Existing app_405 ''405.1.0'' None)] = [app_405]"
    using s by (simp add: final_apps_def republish_existing)
  show ?thesis using s p f by simp
qed

text \<open>
  Claim C9, amended: for a published catalog whose entries have a bundle identifier and
  a version and pairwise distinct keys, and whose binaries are all in storage, Pass 2
  from the empty map followed by the republish returns the catalog itself: every entry
  unchanged, in the same order.
\<close>

theorem merge_idempotent:
  assumes "\<forall>a \<in> set apps. a_bundleIdentifier a \<noteq> None \<and> a_version a \<noteq> None"
    and "distinct (map catalog_key apps)"
    and "\<forall>a \<in> set apps. binary_in_storage unquote assets a"
  shows "\<exists>m. pass2 apps [] = Inr m \<and> final_apps unquote assets publish_new m = apps"
proof -
  have "pass2 apps [] = Inr ([] @ map carried apps)"
    by (rule pass2_fresh_keys) (use assms in simp_all)
  moreover have "filter (binary_in_storage unquote assets) apps = apps"
    using assms(3) by (simp add: filter_id_conv)
  ultimately show ?thesis by (simp add: final_apps_carried)
qed

theorem merge_idempotent_witness:
  "a_bundleIdentifier app_405 = Some ''com.x.app'' \<and> a_version app_405 = Some ''405.1.0'' \<and>
   a_bundleIdentifier app_theta = Some ''com.x.app'' \<and> a_version app_theta = Some ''1.2'' \<and>
   catalog_key app_405 = Some ''com.x.app'' \<and> catalog_key app_theta = Some ''com.x.app:Theta'' \<and>
   binary_in_storage id {''App_v405.1.0.ipa'', ''App_v1.2_Theta.ipa''} app_405 \<and>
   binary_in_storage id {''App_v405.1.0.ipa'', ''App_v1.2_Theta.ipa''} app_theta \<and>
   pass2 [app_405, app_theta] [] =
     Inr [(''com.x.app'', Existing app_405 ''405.1.0'' None),
          (''com.x.app:Theta'', Existing app_theta ''1.2'' (Some ''Theta''))] \<and>
   final_apps id {''App_v405.1.0.ipa'', ''App_v1.2_Theta.ipa''} Map.empty
     [(''com.x.app'', Existing app_405 ''405.1.0'' None),
      (''com.x.app:Theta'', Existing app_theta ''1.2'' (Some ''Theta''))] = [app_405, app_theta]"
proof -
  have f: "a_bundleIdentifier app_405 = Some ''com.x.app''" "a_version app_405 = Some ''405.1.0''"
    "a_bundleIdentifier app_theta = Some ''com.x.app''" "a_version app_theta = Some ''1.2''"
    by (simp_all add: app_405_def app_theta_def)
  have k: "catalog_key app_405 = Some ''com.x.app''"
    "catalog_key app_theta = Some ''com.x.app:Theta''"
    by (simp_all add: catalog_key_def get_name_def app_405_def app_theta_def unique_app_key_def)
  have s: "binary_in_storage id {''App_v405.1.0.ipa'', ''App_v1.2_Theta.ipa''} app_405"
    "binary_in_storage id {''App_v405.1.0.ipa'', ''App_v1.2_Theta.ipa''} app_theta"
    by (simp_all add: binary_in_storage_def get_downloadURL_def app_405_def app_theta_def
        last_segment_def)
  have h1: "\<forall>a \<in> set [app_405, app_theta]. a_bundleIdentifier a \<noteq> None \<and> a_version a \<noteq> None"
    using f by simp
  have h2: "distinct (map catalog_key [app_405, app_theta])"
    using k by simp
  have h3: "\<forall>a \<in> set [app_405, app_theta].
      binary_in_storage id {''App_v405.1.0.ipa'', ''App_v1.2_Theta.ipa''} a"
    using s by simp
  have p: "pass2 [app_405, app_theta] [] =
     Inr [(''com.x.app'', Existing app_405 ''405.1.0'' None),
          (''com.x.app:Theta'', Existing app_theta ''1.2'' (Some ''Theta''))]"
    by (simp add: pass2_step_def get_name_def app_405_def app_theta_def unique_app_key_def Let_def)
  from merge_idempotent[OF h1 h2 h3, of Map.empty] obtain m where
    "pass2 [app_405, app_theta] [] = Inr m"
    and "final_apps id {''App_v405.1.0.ipa'', ''App_v1.2_Theta.ipa''} Map.empty m =
      [app_405, app_theta]" by blast
  with p show ?thesis using f k s by simp
qed


section \<open>Properties of the reconciled tweak\<close>

lemma extract_metadata_sources:
  assumes "extract_metadata_with_ai api_key cache cache_key model fallback_model ask =
             Inr (Some m, cache')"
  shows "cache cache_key = Some m \<or> ask model = Some m \<or> ask fallback_model = Some m"
  using assms
  by (auto simp: extract_metadata_with_ai_def Let_def split: if_splits option.splits)

lemma best_tweak_Some:
  assumes "best_tweak message_text ai_result filename = Some t"
  shows "message_text \<noteq> [] \<and> t \<noteq> [] \<and> (\<exists>m. ai_result = Some m \<and> ai_tweak_name m = Some t)"
  using assms
  by (auto simp: best_tweak_def py_or_def tweak_from_message_def tweak_from_filename_def
      split: if_splits option.splits)

subsection \<open>Claim C5\<close>

text \<open>
  Claim C5, as stated, has the reconciled tweak be null or a member of the registry for
  every answer of the extraction. The tweak of the answer is taken as it is: no part of
  the extraction or of the reconciliation compares it with the registry, which is only
  quoted in the prompt. With the registry BHInsta, Theta and an answer that names
  InstaFake, the reconciled tweak is InstaFake.
\<close>

theorem best_tweak_is_ai_tweak_counterexample:
  "\<not> is_tweak_in_list (Some ''InstaFake'') [''BHInsta'', ''Theta''] \<and>
   (case extract_metadata_with_ai ''sk-key'' Map.empty ''metadata:1'' ''primary'' ''fallback''
           (\<lambda>model. Some md_fake) of
      Inl e \<Rightarrow> None
    | Inr (ai_result, cache) \<Rightarrow> ai_result) = Some md_fake \<and>
   best_tweak ''new release'' (Some md_fake) ''Instagram v405.1.0.ipa'' = Some ''InstaFake''"
proof -
  have "\<not> is_tweak_in_list (Some ''InstaFake'') [''BHInsta'', ''Theta'']" by code_simp
  then show ?thesis
    by (simp add: extract_metadata_with_ai_def Let_def best_tweak_def py_or_def
        tweak_from_message_def md_fake_def)
qed

text \<open>
  Claim C5, amended: the reconciled tweak is null or, as it is, the non-empty
  \<open>tweak_name\<close> of the answer in use, which is the cached answer or the answer of the
  primary or of the fallback model; the filename contributes no tweak. The tweak is
  therefore a member of the registry exactly when the answer names a member.
\<close>

theorem best_tweak_is_ai_tweak:
  assumes "extract_metadata_with_ai api_key cache cache_key model fallback_model ask =
             Inr (ai_result, cache')"
    and "best_tweak message_text ai_result filename = Some t"
  shows "t \<noteq> [] \<and>
         (\<exists>m. ai_result = Some m \<and> ai_tweak_name m = Some t \<and>
              (cache cache_key = Some m \<or> ask model = Some m \<or> ask fallback_model = Some m))"
proof -
  from best_tweak_Some[OF assms(2)] obtain m where
    t: "t \<noteq> []" and m: "ai_result = Some m" and tm: "ai_tweak_name m = Some t" by auto
  from assms(1) m have "cache cache_key = Some m \<or> ask model = Some m \<or> ask fallback_model = Some m"
    using extract_metadata_sources by simp
  with t m tm show ?thesis by simp
qed

theorem best_tweak_is_ai_tweak_witness:
  "extract_metadata_with_ai ''sk-key'' Map.empty ''metadata:1'' ''primary'' ''fallback''
     (\<lambda>model. Some md_theta) = Inr (Some md_theta, [''metadata:1'' \<mapsto> md_theta]) \<and>
   best_tweak ''new release'' (Some md_theta) ''Instagram v405.1.0.ipa'' = Some ''theta'' \<and>
   ai_tweak_name md_theta = Some ''theta'' \<and>
   is_tweak_in_list (Some ''theta'') [''BHInsta'', ''Theta'']"
proof -
  have h1: "extract_metadata_with_ai ''sk-key'' Map.empty ''metadata:1'' ''primary'' ''fallback''
     (\<lambda>model. Some md_theta) = Inr (Some md_theta, [''metadata:1'' \<mapsto> md_theta])"
    by (simp add: extract_metadata_with_ai_def Let_def md_theta_def)
  have h2: "best_tweak ''new release'' (Some md_theta) ''Instagram v405.1.0.ipa'' = Some ''theta''"
    by (simp add: best_tweak_def py_or_def tweak_from_message_def md_theta_def)
  have r: "is_tweak_in_list (Some ''theta'') [''BHInsta'', ''Theta'']" by code_simp
  from best_tweak_is_ai_tweak[OF h1 h2] show ?thesis using h1 h2 r by auto
qed


section \<open>Properties of the batch duplicate detector\<close>

lemma all_tweaks_match_iff:
  "all_tweaks_match keep_tweak known_tweaks delete_files \<longleftrightarrow>
     (\<forall>d \<in> set delete_files.
        tweak_normalized keep_tweak = tweak_normalized (extract_tweak_from_filename d known_tweaks))"
  by (induction delete_files) (auto simp: Let_def)

lemma group_passes_iff: "group_passes known_tweaks g \<longleftrightarrow> \<not> tweak_mismatch known_tweaks g"
  by (auto simp: group_passes_def tweak_mismatch_def all_tweaks_match_iff)

lemma no_mismatch_without_registry: "\<not> tweak_mismatch [] g"
  by (simp add: tweak_mismatch_def)

lemma validate_groups_filter:
  "validate_groups known_tweaks groups = filter (\<lambda>g. \<not> tweak_mismatch known_tweaks g) groups"
proof (cases "known_tweaks = []")
  case True
  then show ?thesis by (simp add: validate_groups_def no_mismatch_without_registry)
next
  case False
  have "group_passes known_tweaks = (\<lambda>g. \<not> tweak_mismatch known_tweaks g)"
    by (rule ext) (simp add: group_passes_iff)
  with False show ?thesis
    by (simp add: validate_groups_def)
qed

lemma check_batch_validated:
  assumes "cache_validated known_tweaks ai cache"
    and "check_batch api_key cache_key ai known_tweaks filenames cache = (groups, cache')"
  shows "cache_validated known_tweaks ai cache' \<and>
         (\<forall>g \<in> set groups. \<not> tweak_mismatch known_tweaks g \<and> proposed ai g)"
proof (cases "api_key = [] \<or> length filenames < 2")
  case True
  with assms(2) have "groups = []" "cache' = cache"
    by (auto simp: check_batch_def split: if_splits)
  with assms(1) show ?thesis by simp
next
  case False
  note live = this
  show ?thesis
  proof (cases "cache (cache_key filenames)")
    case (Some cached)
    with live assms(2) have "groups = cached" "cache' = cache"
      by (auto simp: check_batch_def)
    with assms(1) Some show ?thesis by (auto simp: cache_validated_def)
  next
    case None
    show ?thesis
    proof (cases "ai filenames")
      case None2: None
      with None live assms(2) have "groups = []" "cache' = cache"
        by (auto simp: check_batch_def)
      with assms(1) show ?thesis by simp
    next
      case (Some duplicate_groups)
      with None live assms(2) have g: "groups = validate_groups known_tweaks duplicate_groups"
        and c: "cache' = cache(cache_key filenames \<mapsto> groups)"
        by (auto simp: check_batch_def Let_def)
      have ok: "\<forall>g \<in> set groups. \<not> tweak_mismatch known_tweaks g \<and> proposed ai g"
        using Some by (auto simp: g validate_groups_filter proposed_def)
      with assms(1) show ?thesis
        by (auto simp: c cache_validated_def)
    qed
  qed
qed

lemma check_chunks_validated:
  assumes "cache_validated known_tweaks ai cache"
    and "check_chunks api_key cache_key ai known_tweaks batches cache = (groups, cache')"
  shows "cache_validated known_tweaks ai cache' \<and>
         (\<forall>g \<in> set groups. \<not> tweak_mismatch known_tweaks g \<and> proposed ai g)"
  using assms
proof (induction batches arbitrary: cache groups cache')
  case Nil
  then show ?case by simp
next
  case (Cons chunk rest)
  obtain g1 c1 where b: "check_batch api_key cache_key ai known_tweaks chunk cache = (g1, c1)"
    by (cases "check_batch api_key cache_key ai known_tweaks chunk cache")
  obtain g2 c2 where r: "check_chunks api_key cache_key ai known_tweaks rest c1 = (g2, c2)"
    by (cases "check_chunks api_key cache_key ai known_tweaks rest c1")
  from Cons.prems(2) b r have e: "groups = g1 @ g2" "cache' = c2" by simp_all
  from check_batch_validated[OF Cons.prems(1) b]
  have v1: "cache_validated known_tweaks ai c1"
    and o1: "\<forall>g \<in> set g1. \<not> tweak_mismatch known_tweaks g \<and> proposed ai g" by simp_all
  from Cons.IH[OF v1 r] o1 show ?case by (auto simp: e)
qed

lemma check_all_validated:
  assumes "cache_validated known_tweaks ai cache"
    and "check_all_release_assets_with_ai api_key cache_key ai known_tweaks filenames cache =
           (groups, cache')"
  shows "cache_validated known_tweaks ai cache' \<and>
         (\<forall>g \<in> set groups. \<not> tweak_mismatch known_tweaks g \<and> proposed ai g)"
proof (cases "api_key = [] \<or> length filenames < 2")
  case True
  with assms(2) have "groups = []" "cache' = cache"
    by (auto simp: check_all_release_assets_with_ai_def split: if_splits)
  with assms(1) show ?thesis by simp
next
  case False
  show ?thesis
  proof (cases "CHUNK_SIZE < length filenames")
    case True
    with False assms(2) have
      "check_chunks api_key cache_key ai known_tweaks (chunks CHUNK_SIZE filenames) cache =
         (groups, cache')"
      by (auto simp: check_all_release_assets_with_ai_def)
    from check_chunks_validated[OF assms(1) this] show ?thesis .
  next
    case F2: False
    with False assms(2) have
      "check_batch api_key cache_key ai known_tweaks filenames cache = (groups, cache')"
      by (auto simp: check_all_release_assets_with_ai_def)
    from check_batch_validated[OF assms(1) this] show ?thesis .
  qed
qed

lemma files_to_delete_origin:
  "f \<in> set (files_to_delete ipa_assets groups) \<Longrightarrow>
     f \<in> set ipa_assets \<and> (\<exists>g \<in> set groups. f \<in> set (g_delete g))"
  by (auto simp: files_to_delete_def)

subsection \<open>Claim C6\<close>

text \<open>
  Claim C6: the validation keeps exactly the proposed groups without mismatch, so that a
  group in which the tweak of the file to keep differs from the tweak of a file to
  delete is rejected as a whole. From the empty cache, with which the module starts,
  every group that \<open>check_all_release_assets_with_ai\<close> returns is a proposed group
  without mismatch, and every file scheduled for deletion is a file to delete of such a
  group: a rejected group schedules nothing.
\<close>

theorem mismatched_groups_rejected:
  assumes "check_all_release_assets_with_ai api_key cache_key ai known_tweaks filenames Map.empty =
             (groups, cache')"
  shows "(\<forall>g \<in> set groups. proposed ai g \<and> \<not> tweak_mismatch known_tweaks g) \<and>
         (\<forall>f \<in> set (files_to_delete ipa_assets groups).
            \<exists>g \<in> set groups. f \<in> set (g_delete g) \<and> \<not> tweak_mismatch known_tweaks g) \<and>
         validate_groups known_tweaks proposal =
           filter (\<lambda>g. \<not> tweak_mismatch known_tweaks g) proposal"
proof -
  have "cache_validated known_tweaks ai (Map.empty :: 'a batch_cache)"
    by (simp add: cache_validated_def)
  from check_all_validated[OF this assms]
  have ok: "\<forall>g \<in> set groups. \<not> tweak_mismatch known_tweaks g \<and> proposed ai g" by simp
  then show ?thesis
    using files_to_delete_origin[of _ ipa_assets groups]
    by (auto simp: validate_groups_filter)
qed

text \<open>
  The group that keeps a BHInsta file and deletes a Theta file is rejected; the group of
  the two Theta files is returned, and its file to delete is the only one scheduled.
\<close>

theorem mismatched_groups_rejected_witness:
  "tweak_mismatch [''BHInsta'', ''Theta''] group_bh_theta \<and>
   \<not> tweak_mismatch [''BHInsta'', ''Theta''] group_theta \<and>
   fst (check_all_release_assets_with_ai ''sk-key'' id both_groups [''BHInsta'', ''Theta'']
          release_files Map.empty) = [group_theta] \<and>
   validate_groups [''BHInsta'', ''Theta''] [group_bh_theta, group_theta] = [group_theta] \<and>
   files_to_delete release_files
     (fst (check_all_release_assets_with_ai ''sk-key'' id both_groups [''BHInsta'', ''Theta'']
             release_files Map.empty)) =
     [''Instagram v404.0.0 theta v3.9 blatant Patched.ipa'']"
proof -
  let ?r = "check_all_release_assets_with_ai ''sk-key'' id both_groups [''BHInsta'', ''Theta'']
              release_files Map.empty"
  have m: "tweak_mismatch [''BHInsta'', ''Theta''] group_bh_theta" by code_simp
  have e: "fst ?r = [group_theta]" by code_simp
  have d: "files_to_delete release_files [group_theta] =
      [''Instagram v404.0.0 theta v3.9 blatant Patched.ipa'']" by code_simp
  have p: "?r = (fst ?r, snd ?r)" by simp
  note t = mismatched_groups_rejected[OF p, of release_files "[group_bh_theta, group_theta]"]
  from t e have n: "\<not> tweak_mismatch [''BHInsta'', ''Theta''] group_theta" by simp
  from t m n have v: "validate_groups [''BHInsta'', ''Theta''] [group_bh_theta, group_theta] =
      [group_theta]" by simp
  show ?thesis using m n e v d by simp
qed


section \<open>Properties of the AltStore conversion\<close>

subsection \<open>The registry\<close>

lemma first_known_Some:
  "first_known p known = Some t \<Longrightarrow> t \<in> set known \<and> py_lower t = py_lower p"
  by (induction known) (auto split: if_splits)

lemma first_known_None:
  "first_known p known = None \<longleftrightarrow> (\<forall>t \<in> set known. py_lower t \<noteq> py_lower p)"
  by (induction known) auto

lemma py_lower_Nil: "py_lower t = [] \<longleftrightarrow> t = []"
  by (simp add: py_lower_def)

lemma registry_parenthetical_iff:
  "registry_parenthetical app_name known_tweaks content \<longleftrightarrow>
     (\<exists>g1 t. re_match_name app_name = Some (g1, content) \<and> t \<in> set known_tweaks \<and>
             t \<noteq> [] \<and> py_lower t = py_lower (py_strip content))"
  by (auto simp: registry_parenthetical_def list_ex_iff split: option.splits)

subsection \<open>The pattern of the name\<close>

lemma not_space_paren: "\<not> py_isspace (CHR ''('')"
  by (simp add: py_isspace_def py_ord_def)

lemma paren_tail_ok:
  assumes "content \<noteq> []" and "CHR '')'' \<notin> set content" and "list_all py_isspace ws"
  shows "paren_tail (CHR ''('' # content @ CHR '')'' # ws) = Some content"
proof -
  have "takeWhile (\<lambda>x. x \<noteq> CHR '')'') (content @ CHR '')'' # ws) = content"
    using assms(2) by (induction content) auto
  moreover have "dropWhile (\<lambda>x. x \<noteq> CHR '')'') (content @ CHR '')'' # ws) = CHR '')'' # ws"
    using assms(2) by (induction content) auto
  ultimately show ?thesis using assms(1,3) by (simp add: paren_tail_def)
qed

lemma paren_tail_no_paren: "CHR ''('' \<notin> set s \<Longrightarrow> paren_tail s = None"
  by (cases s) (auto simp: paren_tail_def)

lemma paren_tail_skip:
  assumes "content \<noteq> []" and "CHR '')'' \<notin> set content" and "list_all py_isspace ws"
    and "CHR ''('' \<notin> set pre"
  shows "paren_tail (dropWhile py_isspace (pre @ CHR ''('' # content @ CHR '')'' # ws)) =
           (if list_all py_isspace pre then Some content else None)"
  using assms(4)
proof (induction pre)
  case Nil
  then show ?case using paren_tail_ok[OF assms(1,2,3)] not_space_paren by simp
next
  case (Cons p ps)
  show ?case
  proof (cases "py_isspace p")
    case True
    with Cons show ?thesis by simp
  next
    case False
    from Cons.prems have "p \<noteq> CHR ''(''" by auto
    with False show ?thesis by (simp add: paren_tail_def)
  qed
qed

lemma name_match_wellformed:
  assumes "content \<noteq> []" and "CHR '')'' \<notin> set content" and "list_all py_isspace ws"
    and "CHR ''('' \<notin> set pre" and "CHR 0x0A \<notin> set pre"
  shows "\<exists>g1. name_match g (pre @ CHR ''('' # content @ CHR '')'' # ws) = Some (g1, content)"
  using assms(4,5)
proof (induction pre arbitrary: g)
  case Nil
  have "paren_tail (dropWhile py_isspace ([] @ CHR ''('' # content @ CHR '')'' # ws)) = Some content"
    using paren_tail_skip[OF assms(1,2,3), of "[]"] by simp
  then show ?case by simp
next
  case (Cons p ps)
  have pt: "paren_tail (dropWhile py_isspace ((p # ps) @ CHR ''('' # content @ CHR '')'' # ws)) =
      (if list_all py_isspace (p # ps) then Some content else None)"
    by (rule paren_tail_skip[OF assms(1,2,3)]) (use Cons.prems in simp)
  show ?case
  proof (cases "list_all py_isspace (p # ps)")
    case True
    with pt show ?thesis by simp
  next
    case False
    from Cons.prems have "p \<noteq> CHR 0x0A" by auto
    moreover from Cons.IH[of "g @ [p]"] Cons.prems
    obtain g1 where "name_match (g @ [p]) (ps @ CHR ''('' # content @ CHR '')'' # ws) = Some (g1, content)"
      by auto
    ultimately show ?thesis using pt False by simp
  qed
qed

lemma re_match_name_wellformed:
  assumes "base \<noteq> []" and "CHR ''('' \<notin> set base" and "CHR 0x0A \<notin> set base"
    and "content \<noteq> []" and "CHR '')'' \<notin> set content" and "list_all py_isspace ws"
  shows "\<exists>g1. re_match_name (base @ ''('' @ content @ '')'' @ ws) = Some (g1, content)"
proof -
  from assms(1) obtain c cs where b: "base = c # cs" by (cases base) auto
  with assms(2,3) have c: "c \<noteq> CHR 0x0A" and cs: "CHR ''('' \<notin> set cs" "CHR 0x0A \<notin> set cs"
    by auto
  from name_match_wellformed[OF assms(4,5,6) cs, of "[c]"]
  show ?thesis using c by (simp add: re_match_name_def b)
qed

lemma name_match_no_paren: "CHR ''('' \<notin> set s \<Longrightarrow> name_match g s = None"
proof (induction s arbitrary: g)
  case Nil
  then show ?case by simp
next
  case (Cons c cs)
  have "CHR ''('' \<notin> set (dropWhile py_isspace (c # cs))"
    using Cons.prems set_dropWhileD by fastforce
  then have "paren_tail (dropWhile py_isspace (c # cs)) = None"
    by (rule paren_tail_no_paren)
  moreover from Cons have "name_match (g @ [c]) cs = None" by simp
  ultimately show ?case by simp
qed

lemma re_match_name_no_paren: "CHR ''('' \<notin> set name \<Longrightarrow> re_match_name name = None"
  by (cases name) (simp_all add: re_match_name_def name_match_no_paren)

subsection \<open>The converted bundle identifier\<close>

lemma converted_bundle_identifier:
  assumes "out = convert_app_to_altstore_format a known_tweaks"
    and "known_content = registry_parenthetical (get_name a) known_tweaks"
  shows "alt_name out = get_name a \<and>
         (alt_bundleIdentifier out \<noteq> get_bundleIdentifier a \<longleftrightarrow> (\<exists>content. known_content content)) \<and>
         (\<forall>content. known_content content \<longrightarrow>
            alt_bundleIdentifier out = get_bundleIdentifier a @ ''.'' @ py_lower (py_strip content)) \<and>
         ((\<nexists>content. known_content content) \<longrightarrow> alt_bundleIdentifier out = get_bundleIdentifier a)"
proof -
  let ?name = "get_name a" and ?orig = "get_bundleIdentifier a"
  have kd: "known_content content \<longleftrightarrow>
      (\<exists>g1 t. re_match_name ?name = Some (g1, content) \<and> t \<in> set known_tweaks \<and>
              t \<noteq> [] \<and> py_lower t = py_lower (py_strip content))" for content
    unfolding assms(2) by (rule registry_parenthetical_iff)
  have n: "alt_name out = ?name"
    unfolding assms(1)
    by (simp add: convert_app_to_altstore_format_def Let_def split: prod.splits)
  have b: "alt_bundleIdentifier out =
      create_unique_bundle_id ?orig (snd (extract_tweak_from_name ?name known_tweaks))"
    unfolding assms(1)
    by (simp add: convert_app_to_altstore_format_def Let_def split: prod.splits)
  show ?thesis
  proof (cases "re_match_name ?name")
    case None
    then have "alt_bundleIdentifier out = ?orig"
      by (simp add: b extract_tweak_from_name_def create_unique_bundle_id_def)
    with None n show ?thesis by (simp add: kd)
  next
    case (Some p)
    obtain g1 g2 where p: "p = (g1, g2)" by (cases p)
    show ?thesis
    proof (cases "first_known (py_strip g2) known_tweaks")
      case None
      then have u: "alt_bundleIdentifier out = ?orig"
        using Some p by (simp add: b extract_tweak_from_name_def create_unique_bundle_id_def)
      from None have "\<forall>t \<in> set known_tweaks. py_lower t \<noteq> py_lower (py_strip g2)"
        by (simp add: first_known_None)
      then have "\<nexists>content. known_content content"
        using Some p by (auto simp: kd)
      with u n show ?thesis by simp
    next
      case Some2: (Some t)
      from first_known_Some[OF Some2] have t: "t \<in> set known_tweaks"
        and l: "py_lower t = py_lower (py_strip g2)" by simp_all
      have v: "alt_bundleIdentifier out =
          (if t = [] then ?orig else ?orig @ ''.'' @ py_lower (py_strip g2))"
        using Some p Some2 l
        by (simp add: b extract_tweak_from_name_def create_unique_bundle_id_def)
      have kc: "known_content content \<longleftrightarrow> content = g2 \<and> t \<noteq> []" for content
      proof
        assume "known_content content"
        then obtain t' where c: "content = g2" and t': "t' \<noteq> []"
          and l': "py_lower t' = py_lower (py_strip g2)"
          using Some p by (auto simp: kd)
        from l l' have "py_lower t = py_lower t'" by simp
        with t' have "t \<noteq> []" using py_lower_Nil by metis
        with c show "content = g2 \<and> t \<noteq> []" by simp
      next
        assume "content = g2 \<and> t \<noteq> []"
        then show "known_content content"
          using Some p t l by (auto simp: kd)
      qed
      show ?thesis
      proof (cases "t = []")
        case True
        with v kc n show ?thesis by simp
      next
        case False
        with v kc n show ?thesis by simp
      qed
    qed
  qed
qed

subsection \<open>Claim C10\<close>

text \<open>
  Claim C10, as stated, has the bundle identifier change whenever the name ends in a
  parenthetical whose content is in the registry up to case. The pattern of the
  conversion asks for at least one character of name before the parenthetical: the name
  \<open>(Theta)\<close> ends in the parenthetical of the registry entry Theta, and its bundle
  identifier is left as it is.
\<close>

theorem altstore_bundle_identifier_counterexample:
  "trailing_parenthetical (get_name app_only_theta) = Some ''Theta'' \<and>
   is_tweak_in_list (Some ''Theta'') [''BHX'', ''Theta''] \<and>
   alt_bundleIdentifier (convert_app_to_altstore_format app_only_theta [''BHX'', ''Theta'']) =
     get_bundleIdentifier app_only_theta"
  by code_simp

text \<open>
  Claim C10, amended: the display name is never altered. The bundle identifier of the
  output differs from that of the input if and only if the name matches the pattern of
  the conversion (at least one character other than a newline, then optional whitespace,
  a parenthetical with a non-empty content free of closing parentheses, and only
  whitespace after it) and the stripped content of the parenthetical equals a non-empty
  entry of the registry up to case; the bundle identifier is then the original one, a
  dot, and the content stripped and in lower case, which is the registry entry in lower
  case. Every other app keeps its bundle identifier. A name made of a non-empty base
  without opening parenthesis or newline, a parenthetical and trailing whitespace
  matches the pattern with the content of that parenthetical; a name without opening
  parenthesis does not match.
\<close>

theorem altstore_bundle_identifier:
  "alt_name (convert_app_to_altstore_format a known_tweaks) = get_name a \<and>
   (alt_bundleIdentifier (convert_app_to_altstore_format a known_tweaks) \<noteq> get_bundleIdentifier a
      \<longleftrightarrow> (\<exists>content. registry_parenthetical (get_name a) known_tweaks content)) \<and>
   (registry_parenthetical (get_name a) known_tweaks content \<longrightarrow>
      alt_bundleIdentifier (convert_app_to_altstore_format a known_tweaks) =
        get_bundleIdentifier a @ ''.'' @ py_lower (py_strip content)) \<and>
   ((\<forall>c. \<not> registry_parenthetical (get_name a) known_tweaks c) \<longrightarrow>
      alt_bundleIdentifier (convert_app_to_altstore_format a known_tweaks) = get_bundleIdentifier a) \<and>
   (base \<noteq> [] \<and> CHR ''('' \<notin> set base \<and> CHR 0x0A \<notin> set base \<and> inner \<noteq> [] \<and>
    CHR '')'' \<notin> set inner \<and> list_all py_isspace ws \<longrightarrow>
      (registry_parenthetical (base @ ''('' @ inner @ '')'' @ ws) known_tweaks content \<longleftrightarrow>
         content = inner \<and>
         (\<exists>t \<in> set known_tweaks. t \<noteq> [] \<and> py_lower t = py_lower (py_strip inner)))) \<and>
   (CHR ''('' \<notin> set name \<longrightarrow> \<not> registry_parenthetical name known_tweaks content)"
proof -
  note core = converted_bundle_identifier[OF refl refl, of a known_tweaks]
  have wf: "registry_parenthetical (base @ ''('' @ inner @ '')'' @ ws) known_tweaks content \<longleftrightarrow>
         content = inner \<and>
         (\<exists>t \<in> set known_tweaks. t \<noteq> [] \<and> py_lower t = py_lower (py_strip inner))"
    if "base \<noteq> []" "CHR ''('' \<notin> set base" "CHR 0x0A \<notin> set base" "inner \<noteq> []"
      "CHR '')'' \<notin> set inner" "list_all py_isspace ws"
  proof -
    from re_match_name_wellformed[OF that] obtain g1 where
      "re_match_name (base @ ''('' @ inner @ '')'' @ ws) = Some (g1, inner)" ..
    then show ?thesis by (auto simp: registry_parenthetical_iff)
  qed
  have np: "\<not> registry_parenthetical name known_tweaks content" if "CHR ''('' \<notin> set name"
    using re_match_name_no_paren[OF that] by (simp add: registry_parenthetical_def)
  from core wf np show ?thesis by blast
qed

text \<open>
  \<open>Instagram (THETA)\<close> with Theta in the registry becomes \<open>com.burbn.instagram.theta\<close>,
  and \<open>Instagram (Pro)\<close> keeps its bundle identifier; both keep their name.
\<close>

theorem altstore_bundle_identifier_witness:
  "registry_parenthetical (get_name app_instagram_theta) [''BHX'', ''Theta''] ''THETA'' \<and>
   alt_bundleIdentifier (convert_app_to_altstore_format app_instagram_theta [''BHX'', ''Theta'']) =
     ''com.burbn.instagram.theta'' \<and>
   alt_name (convert_app_to_altstore_format app_instagram_theta [''BHX'', ''Theta'']) =
     ''Instagram (THETA)'' \<and>
   get_name app_instagram_pro = ''Instagram'' @ '' '' @ ''('' @ ''Pro'' @ '')'' @ [] \<and>
   \<not> registry_parenthetical (get_name app_instagram_pro) [''BHX'', ''Theta''] ''Pro'' \<and>
   alt_bundleIdentifier (convert_app_to_altstore_format app_instagram_pro [''BHX'', ''Theta'']) =
     ''com.burbn.instagram''"
proof -
  have r: "registry_parenthetical (get_name app_instagram_theta) [''BHX'', ''Theta''] ''THETA''"
    by code_simp
  have g: "get_bundleIdentifier app_instagram_theta = ''com.burbn.instagram''"
    "get_name app_instagram_theta = ''Instagram (THETA)''"
    "get_bundleIdentifier app_instagram_pro = ''com.burbn.instagram''"
    "get_name app_instagram_pro = ''Instagram (Pro)''"
    by (simp_all add: get_bundleIdentifier_def get_name_def app_instagram_theta_def
        app_instagram_pro_def)
  have l: "py_lower (py_strip ''THETA'') = ''theta''" by code_simp
  have n: "\<forall>c. \<not> registry_parenthetical (get_name app_instagram_pro) [''BHX'', ''Theta''] c"
  proof
    fix c
    have "re_match_name ''Instagram (Pro)'' = Some (''Instagram'', ''Pro'')" by code_simp
    moreover have "\<not> list_ex (\<lambda>t. t \<noteq> [] \<and> py_lower t = py_lower (py_strip ''Pro'')) [''BHX'', ''Theta'']"
      by code_simp
    ultimately show "\<not> registry_parenthetical (get_name app_instagram_pro) [''BHX'', ''Theta''] c"
      by (simp add: registry_parenthetical_def g)
  qed
  from altstore_bundle_identifier[of app_instagram_theta "[''BHX'', ''Theta'']" "''THETA''"]
    altstore_bundle_identifier[of app_instagram_pro "[''BHX'', ''Theta'']"]
  show ?thesis using r n l g by simp
qed


end
